theory Spec2Isabelle
  imports Complex_Main "HOL-Library.Sublist"
begin

section \<open>The knowledge base of \<^verbatim>\<open>knowledge_base.py\<close>\<close>

text \<open>
  The class \<^verbatim>\<open>KnowledgeBase\<close> keeps two parallel lists, \<^verbatim>\<open>documents\<close> and
  \<^verbatim>\<open>embeddings\<close>, and a dictionary \<^verbatim>\<open>metadata\<close> from file paths to modification times.
  It is modelled by explicit state passing: every method takes the instance state and
  returns the new one; every exception the source can raise is a value of \<open>error\<close>.

  Conventions of the model:
  \<^item> Python floats (embedding components, scores, \<^verbatim>\<open>st_mtime\<close>) are real numbers;
    rounding and NaN are not modelled.
  \<^item> A Python string is the byte string that encodes it in UTF-8, a lone surrogate
    \<^verbatim>\<open>U+DC80..U+DCFF\<close> being the byte \<^verbatim>\<open>0x80..0xFF\<close> it stands for in a file name
    (\<^verbatim>\<open>surrogateescape\<close>). The string can be written to a UTF-8 file exactly when its
    bytes are well-formed UTF-8. The two string operations the source uses (\<^verbatim>\<open>split\<close>
    and \<^verbatim>\<open>replace\<close>) find the same matches on bytes as on code points.
  \<^item> The library calls are parameters: the embedding service
    \<^verbatim>\<open>ollama.embeddings(...)['embedding']\<close> is \<open>embedder\<close>, a function from the prompt to
    an error or a vector; \<^verbatim>\<open>np.argsort\<close> is \<open>argsort\<close>; what \<^verbatim>\<open>json\<close> and \<^verbatim>\<open>pickle\<close>
    read back from what they wrote is \<open>codec\<close>.
  \<^item> A method returns the state it leaves together with the exception it raised, if any:
    an exception does not undo the assignments made before it.
\<close>

subsection \<open>Errors\<close>

datatype error =
    EmbeddingFailure      \<comment> \<open>any exception of \<^verbatim>\<open>ollama.embeddings\<close>\<close>
  | ShapeError            \<comment> \<open>\<^verbatim>\<open>np.dot\<close> on vectors of different lengths (a \<^verbatim>\<open>ValueError\<close>)\<close>
  | IndexError            \<comment> \<open>list index out of range\<close>
  | ReadFailure           \<comment> \<open>any exception of \<^verbatim>\<open>open\<close>, \<^verbatim>\<open>read\<close>, \<^verbatim>\<open>Document\<close>, \<^verbatim>\<open>PdfReader\<close>\<close>
  | UnsupportedFormat     \<comment> \<open>the \<^verbatim>\<open>ValueError\<close> of \<^verbatim>\<open>read_file_content\<close>\<close>
  | NotRelative           \<comment> \<open>the \<^verbatim>\<open>ValueError\<close> of \<^verbatim>\<open>Path.relative_to\<close>\<close>
  | ParseFailure          \<comment> \<open>any exception of \<^verbatim>\<open>json.load\<close> or \<^verbatim>\<open>pickle.load\<close>\<close>
  | StatFailure           \<comment> \<open>any \<^verbatim>\<open>OSError\<close> of \<^verbatim>\<open>file_path.stat()\<close>\<close>
  | EncodeFailure         \<comment> \<open>the \<^verbatim>\<open>UnicodeEncodeError\<close> of writing a lone surrogate as UTF-8\<close>

subsection \<open>Paths\<close>

text \<open>A \<^verbatim>\<open>pathlib\<close> path is its anchor (absolute or not) and its components. Dictionary
  keys and set elements that the source keeps as \<^verbatim>\<open>str(path)\<close> and reads back with
  \<^verbatim>\<open>Path(...)\<close> are kept as paths; \<^verbatim>\<open>str\<close> is applied where a path enters a document.\<close>

datatype path = Path (is_absolute: bool) (parts: "string list")

text \<open>\<^verbatim>\<open>directory / rel\<close>, the form of every path \<^verbatim>\<open>directory.rglob('*')\<close> yields.\<close>

definition joinpath :: "path \<Rightarrow> string list \<Rightarrow> path" where
  "joinpath directory rel = Path (is_absolute directory) (parts directory @ rel)"

text \<open>\<^verbatim>\<open>Path.absolute()\<close>: a relative path is put below the working directory, nothing is
  normalised.\<close>

definition absolute :: "string list \<Rightarrow> path \<Rightarrow> path" where
  "absolute cwd p = (if is_absolute p then p else Path True (cwd @ parts p))"

text \<open>\<^verbatim>\<open>Path.relative_to(other)\<close>: a \<^verbatim>\<open>ValueError\<close> unless both have the same anchor and
  \<open>other\<close> is a prefix.\<close>

definition relative_to :: "path \<Rightarrow> path \<Rightarrow> error + path" where
  "relative_to p other =
     (if is_absolute p = is_absolute other \<and> prefix (parts other) (parts p)
      then Inr (Path False (drop (length (parts other)) (parts p)))
      else Inl NotRelative)"

fun join_parts :: "string list \<Rightarrow> string" where
  "join_parts [] = []"
| "join_parts [p] = p"
| "join_parts (p # ps) = p @ ''/'' @ join_parts ps"

definition str_path :: "path \<Rightarrow> string" where
  "str_path p =
     (if is_absolute p then ''/'' @ join_parts (parts p)
      else if parts p = [] then ''.''
      else join_parts (parts p))"

subsection \<open>Strings that can be written as UTF-8\<close>

definition in_range :: "nat \<Rightarrow> nat \<Rightarrow> char \<Rightarrow> bool" where
  "in_range lo hi c \<longleftrightarrow> lo \<le> of_char c \<and> of_char c \<le> hi"

text \<open>The first two bytes of a well-formed sequence of three and of four bytes.\<close>

definition three_bytes :: "char \<Rightarrow> char \<Rightarrow> bool" where
  "three_bytes a b \<longleftrightarrow>
     in_range 0xE0 0xE0 a \<and> in_range 0xA0 0xBF b
   \<or> in_range 0xE1 0xEC a \<and> in_range 0x80 0xBF b
   \<or> in_range 0xED 0xED a \<and> in_range 0x80 0x9F b
   \<or> in_range 0xEE 0xEF a \<and> in_range 0x80 0xBF b"

definition four_bytes :: "char \<Rightarrow> char \<Rightarrow> bool" where
  "four_bytes a b \<longleftrightarrow>
     in_range 0xF0 0xF0 a \<and> in_range 0x90 0xBF b
   \<or> in_range 0xF1 0xF3 a \<and> in_range 0x80 0xBF b
   \<or> in_range 0xF4 0xF4 a \<and> in_range 0x80 0x8F b"

text \<open>Well-formed UTF-8: what the strict encoder of a file opened with
  \<^verbatim>\<open>encoding='utf-8'\<close> accepts. A byte outside a well-formed sequence is a lone surrogate
  of the Python string.\<close>

fun utf8 :: "string \<Rightarrow> bool" where
  "utf8 [] = True"
| "utf8 [a] = in_range 0x00 0x7F a"
| "utf8 (a # b # rest) =
     (if in_range 0x00 0x7F a then utf8 (b # rest)
      else if in_range 0xC2 0xDF a then in_range 0x80 0xBF b \<and> utf8 rest
      else (case rest of
              [] \<Rightarrow> False
            | c # rest3 \<Rightarrow>
                if three_bytes a b then in_range 0x80 0xBF c \<and> utf8 rest3
                else (case rest3 of
                        [] \<Rightarrow> False
                      | d # rest4 \<Rightarrow>
                          four_bytes a b \<and> in_range 0x80 0xBF c \<and> in_range 0x80 0xBF d
                          \<and> utf8 rest4)))"

subsection \<open>The instance state and the storage directory\<close>

type_synonym embedding = "real list"

record knowledge_base =
  documents :: "string list"
  embeddings :: "embedding list"
  metadata :: "path \<rightharpoonup> real"

text \<open>A file of the storage directory either parses to a value or does not.\<close>

datatype 'a artifact = Parsed 'a | Unparsable

record storage =
  documents_file :: "string list artifact option"
  embeddings_file :: "embedding list artifact option"
  metadata_file :: "(path \<rightharpoonup> real) artifact option"

text \<open>What \<^verbatim>\<open>json.load\<close> and \<^verbatim>\<open>pickle.load\<close> make of the file that \<^verbatim>\<open>json.dump\<close> and
  \<^verbatim>\<open>pickle.dump\<close> wrote for a value, when the write succeeded.\<close>

record codec =
  dumped_documents :: "string list \<Rightarrow> string list artifact"
  dumped_embeddings :: "embedding list \<Rightarrow> embedding list artifact"
  dumped_metadata :: "(path \<rightharpoonup> real) \<Rightarrow> (path \<rightharpoonup> real) artifact"

subsection \<open>Loading and saving\<close>

definition load_documents :: "storage \<Rightarrow> error + string list" where
  "load_documents disk =
     (case documents_file disk of
        Some (Parsed v) \<Rightarrow> Inr v
      | Some Unparsable \<Rightarrow> Inl ParseFailure
      | None \<Rightarrow> Inr [])"

definition load_embeddings :: "storage \<Rightarrow> error + embedding list" where
  "load_embeddings disk =
     (case embeddings_file disk of
        Some (Parsed v) \<Rightarrow> Inr v
      | Some Unparsable \<Rightarrow> Inl ParseFailure
      | None \<Rightarrow> Inr [])"

definition load_metadata :: "storage \<Rightarrow> error + (path \<rightharpoonup> real)" where
  "load_metadata disk =
     (case metadata_file disk of
        Some (Parsed v) \<Rightarrow> Inr v
      | Some Unparsable \<Rightarrow> Inl ParseFailure
      | None \<Rightarrow> Inr Map.empty)"

text \<open>\<^verbatim>\<open>KnowledgeBase.__init__\<close>: metadata first, then documents, then embeddings.\<close>

definition init_knowledge_base :: "storage \<Rightarrow> error + knowledge_base" where
  "init_knowledge_base disk =
     (case load_metadata disk of
        Inl e \<Rightarrow> Inl e
      | Inr md \<Rightarrow>
          (case load_documents disk of
             Inl e \<Rightarrow> Inl e
           | Inr docs \<Rightarrow>
               (case load_embeddings disk of
                  Inl e \<Rightarrow> Inl e
                | Inr embs \<Rightarrow>
                    Inr \<lparr>documents = docs, embeddings = embs, metadata = md\<rparr>)))"

text \<open>\<^verbatim>\<open>save_data\<close>. \<^verbatim>\<open>open(..., 'w')\<close> empties the documents file and \<^verbatim>\<open>json.dump\<close>
  with \<^verbatim>\<open>ensure_ascii=False\<close> writes the strings as they are: a document with a lone
  surrogate raises in the middle of the list, which leaves a file that is no JSON, and the
  embeddings file is not reached. The result is the storage and the exception, if any.\<close>

definition save_data :: "codec \<Rightarrow> knowledge_base \<Rightarrow> storage \<Rightarrow> storage \<times> error option" where
  "save_data c s disk =
     (if \<forall>doc \<in> set (documents s). utf8 doc
      then (disk\<lparr>documents_file := Some (dumped_documents c (documents s)),
                 embeddings_file := Some (dumped_embeddings c (embeddings s))\<rparr>, None)
      else (disk\<lparr>documents_file := Some Unparsable\<rparr>, Some EncodeFailure))"

text \<open>\<^verbatim>\<open>save_metadata\<close>; the keys are the strings of the paths.\<close>

definition save_metadata :: "codec \<Rightarrow> knowledge_base \<Rightarrow> storage \<Rightarrow> storage \<times> error option" where
  "save_metadata c s disk =
     (if \<forall>p \<in> dom (metadata s). utf8 (str_path p)
      then (disk\<lparr>metadata_file := Some (dumped_metadata c (metadata s))\<rparr>, None)
      else (disk\<lparr>metadata_file := Some Unparsable\<rparr>, Some EncodeFailure))"

text \<open>The two calls that end a synchronisation, \<^verbatim>\<open>self.save_data()\<close> and then
  \<^verbatim>\<open>self.save_metadata()\<close>: the second is not reached when the first raises.\<close>

definition save_all :: "codec \<Rightarrow> knowledge_base \<Rightarrow> storage \<Rightarrow> storage \<times> error option" where
  "save_all c s disk =
     (case save_data c s disk of
        (disk1, Some e) \<Rightarrow> (disk1, Some e)
      | (disk1, None) \<Rightarrow> save_metadata c s disk1)"

subsection \<open>\<^verbatim>\<open>add_document\<close>\<close>

definition add_document ::
  "(string \<Rightarrow> error + embedding) \<Rightarrow> string \<Rightarrow> knowledge_base \<Rightarrow> error + knowledge_base" where
  "add_document embedder content s =
     (case embedder content of
        Inl e \<Rightarrow> Inl e
      | Inr embedding \<Rightarrow>
          Inr (s\<lparr>documents := documents s @ [content],
                 embeddings := embeddings s @ [embedding]\<rparr>))"

subsection \<open>\<^verbatim>\<open>search\<close>\<close>

text \<open>\<^verbatim>\<open>np.dot\<close> of two one-dimensional sequences: the sum of the products, a
  \<^verbatim>\<open>ValueError\<close> when the lengths differ.\<close>

definition dot_product :: "embedding \<Rightarrow> embedding \<Rightarrow> real" where
  "dot_product q d = sum_list (map2 (*) q d)"

definition dot :: "embedding \<Rightarrow> embedding \<Rightarrow> error + real" where
  "dot q d = (if length q = length d then Inr (dot_product q d) else Inl ShapeError)"

text \<open>The loop that fills \<^verbatim>\<open>similarities\<close>; it stops at the first vector \<^verbatim>\<open>np.dot\<close> rejects.\<close>

fun similarities :: "embedding \<Rightarrow> embedding list \<Rightarrow> error + real list" where
  "similarities q [] = Inr []"
| "similarities q (doc_embedding # rest) =
     (case dot q doc_embedding of
        Inl e \<Rightarrow> Inl e
      | Inr similarity \<Rightarrow>
          (case similarities q rest of
             Inl e \<Rightarrow> Inl e
           | Inr sims \<Rightarrow> Inr (similarity # sims)))"

text \<open>What is asked of \<^verbatim>\<open>np.argsort\<close>: the indices of the array, each once, in
  ascending order of their values. The default sort kind is not stable, so nothing is
  asked about the order of indices with equal values.\<close>

definition ascending_permutation :: "real list \<Rightarrow> nat list \<Rightarrow> bool" where
  "ascending_permutation xs idxs \<longleftrightarrow>
     distinct idxs \<and> set idxs = set [0..<length xs] \<and> sorted (map (\<lambda>i. xs ! i) idxs)"

text \<open>The slice \<^verbatim>\<open>a[start:]\<close>: a negative start counts from the end and is clipped at
  the beginning, a start beyond the end gives the empty sequence.\<close>

definition slice_from :: "int \<Rightarrow> 'a list \<Rightarrow> 'a list" where
  "slice_from start xs =
     (let n = int (length xs);
          st = (if start < 0 then max 0 (start + n) else min start n)
      in drop (nat st) xs)"

text \<open>The loop that builds \<^verbatim>\<open>results\<close>; \<^verbatim>\<open>self.documents[idx]\<close> raises when the
  documents list is shorter than the embeddings list, and an index beyond the similarities
  raises as well.\<close>

fun results :: "string list \<Rightarrow> real list \<Rightarrow> nat list \<Rightarrow> error + (string \<times> real) list" where
  "results docs sims [] = Inr []"
| "results docs sims (idx # rest) =
     (if idx < length docs \<and> idx < length sims then
        (case results docs sims rest of
           Inl e \<Rightarrow> Inl e
         | Inr rs \<Rightarrow> Inr ((docs ! idx, sims ! idx) # rs))
      else Inl IndexError)"

definition search ::
  "(real list \<Rightarrow> nat list) \<Rightarrow> (string \<Rightarrow> error + embedding) \<Rightarrow> knowledge_base \<Rightarrow> string \<Rightarrow> int
     \<Rightarrow> error + (string \<times> real) list" where
  "search argsort embedder s query top_k =
     (case embedder query of
        Inl e \<Rightarrow> Inl e
      | Inr query_embedding \<Rightarrow>
          (case similarities query_embedding (embeddings s) of
             Inl e \<Rightarrow> Inl e
           | Inr sims \<Rightarrow>
               results (documents s) sims (rev (slice_from (- top_k) (argsort sims)))))"

subsection \<open>Identity tags\<close>

text \<open>The tag \<^verbatim>\<open>'\<dots>: '\<close> that starts every synchronised document (two CJK characters, a
  colon, a space) in UTF-8, and the separator of two newline characters.\<close>

definition tag :: string where
  "tag = [CHR 0xE6, CHR 0x96, CHR 0x87, CHR 0xE4, CHR 0xBB, CHR 0xB6, CHR '':'', CHR '' '']"

definition sep :: string where
  "sep = [CHR 0x0A, CHR 0x0A]"

text \<open>\<^verbatim>\<open>s.split(sep)[0]\<close>: the part of \<open>s\<close> before the first occurrence of \<open>sep\<close>, all
  of \<open>s\<close> when there is none.\<close>

fun split_head :: "string \<Rightarrow> string \<Rightarrow> string" where
  "split_head sp [] = []"
| "split_head sp (c # cs) = (if prefix sp (c # cs) then [] else c # split_head sp cs)"

text \<open>\<^verbatim>\<open>s.replace(old, '')\<close>: every occurrence of \<open>old\<close> is removed, scanning from the
  left without overlaps.\<close>

function remove_all :: "string \<Rightarrow> string \<Rightarrow> string" where
  "remove_all old [] = []"
| "remove_all old (c # cs) =
     (if old \<noteq> [] \<and> prefix old (c # cs)
      then remove_all old (drop (length old) (c # cs))
      else c # remove_all old cs)"
  by pat_completeness auto
termination
  by (relation "measure (\<lambda>(old, s). length s)") auto

definition doc_path :: "string \<Rightarrow> string" where
  "doc_path doc = remove_all tag (split_head sep doc)"

definition make_document :: "string \<Rightarrow> string \<Rightarrow> string" where
  "make_document relative_path content = tag @ relative_path @ sep @ content"

subsection \<open>The directory listing\<close>

text \<open>What the file system holds under a path that \<^verbatim>\<open>rglob\<close> lists: nothing that
  \<^verbatim>\<open>stat()\<close> can follow (a dangling symbolic link, a file deleted since), or a file with its
  modification time and with what the reader of its format returns for it.\<close>

datatype file_status =
    Missing error
  | Existing real "error + string"

text \<open>One entry of \<^verbatim>\<open>directory.rglob('*')\<close>: its components below the directory, what
  \<^verbatim>\<open>file_path.suffix.lower()\<close> returns for it, and its status.\<close>

record file_entry =
  rel_parts :: "string list"
  suffix_lower :: string
  status :: file_status

text \<open>\<^verbatim>\<open>file_path.stat().st_mtime\<close>.\<close>

definition st_mtime :: "file_entry \<Rightarrow> error + real" where
  "st_mtime f = (case status f of Missing e \<Rightarrow> Inl e | Existing mtime x \<Rightarrow> Inr mtime)"

text \<open>What \<^verbatim>\<open>open(...).read()\<close>, \<^verbatim>\<open>Document\<close> or \<^verbatim>\<open>PdfReader\<close> return for the file.\<close>

definition extracted :: "file_entry \<Rightarrow> error + string" where
  "extracted f = (case status f of Missing e \<Rightarrow> Inl e | Existing mtime x \<Rightarrow> x)"

definition read_file_content :: "file_entry \<Rightarrow> error + string" where
  "read_file_content f =
     (let suffix = suffix_lower f in
      if suffix \<in> set [''.txt'', ''.md'', ''.py''] then extracted f
      else if suffix = ''.docx'' then extracted f
      else if suffix = ''.pdf'' then extracted f
      else Inl UnsupportedFormat)"

text \<open>\<^verbatim>\<open>check_file_changes\<close>. The key looked up is \<^verbatim>\<open>str(file_path)\<close>, the path as
  \<^verbatim>\<open>rglob\<close> yields it; \<^verbatim>\<open>stat()\<close> is called first and its exception leaves the method.\<close>

definition check_file_changes :: "knowledge_base \<Rightarrow> path \<Rightarrow> file_entry \<Rightarrow> error + bool" where
  "check_file_changes s file_path f =
     (case st_mtime f of
        Inl e \<Rightarrow> Inl e
      | Inr mtime \<Rightarrow>
          (case metadata s file_path of
             None \<Rightarrow> Inr True
           | Some m \<Rightarrow> Inr (mtime \<noteq> m)))"

subsection \<open>\<^verbatim>\<open>add_documents_from_directory\<close>\<close>

definition default_extensions :: "string list" where
  "default_extensions = [''.txt'', ''.md'', ''.py'', ''.docx'', ''.pdf'']"

text \<open>What the method prints, in order.\<close>

datatype event =
    Updated string
  | Added string
  | Failed path error
  | Deleted string
  | DeletedCount nat
  | Cleared

text \<open>The search for \<^verbatim>\<open>doc_index\<close>: the first document whose tag is the relative path.\<close>

fun find_doc :: "string list \<Rightarrow> string \<Rightarrow> nat option" where
  "find_doc [] relative_path = None"
| "find_doc (doc # docs) relative_path =
     (if doc_path doc = relative_path then Some 0
      else map_option Suc (find_doc docs relative_path))"

text \<open>The \<^verbatim>\<open>try\<close> statement of the first loop, entered for a file that
  \<^verbatim>\<open>check_file_changes\<close> reports as changed. Every exception raised inside is caught and
  printed; the state keeps what was assigned before the exception. The metadata entry is
  written last, after the message, from a second call of \<^verbatim>\<open>stat()\<close>.\<close>

definition process_file ::
  "(string \<Rightarrow> error + embedding) \<Rightarrow> string list \<Rightarrow> path \<Rightarrow> file_entry
     \<Rightarrow> knowledge_base \<Rightarrow> knowledge_base \<times> event list" where
  "process_file embedder cwd directory f s =
     (let file_path = joinpath directory (rel_parts f);
          abs_path = absolute cwd file_path
      in case read_file_content f of
           Inl e \<Rightarrow> (s, [Failed file_path e])
         | Inr content \<Rightarrow>
             (case relative_to file_path directory of
                Inl e \<Rightarrow> (s, [Failed file_path e])
              | Inr rp \<Rightarrow>
                  (let relative_path = str_path rp;
                       document = make_document relative_path content
                   in case find_doc (documents s) relative_path of
                        Some doc_index \<Rightarrow>
                          (let s1 = s\<lparr>documents := (documents s)[doc_index := document]\<rparr>
                           in case embedder content of
                                Inl e \<Rightarrow> (s1, [Failed file_path e])
                              | Inr embedding \<Rightarrow>
                                  if doc_index < length (embeddings s1) then
                                    (let s2 = s1\<lparr>embeddings :=
                                                     (embeddings s1)[doc_index := embedding]\<rparr>
                                     in case st_mtime f of
                                          Inl e \<Rightarrow>
                                            (s2, [Updated relative_path, Failed file_path e])
                                        | Inr mtime \<Rightarrow>
                                            (s2\<lparr>metadata := (metadata s2)(abs_path \<mapsto> mtime)\<rparr>,
                                             [Updated relative_path]))
                                  else (s1, [Failed file_path IndexError]))
                      | None \<Rightarrow>
                          (case add_document embedder document s of
                             Inl e \<Rightarrow> (s, [Failed file_path e])
                           | Inr s1 \<Rightarrow>
                               (case st_mtime f of
                                  Inl e \<Rightarrow> (s1, [Added relative_path, Failed file_path e])
                                | Inr mtime \<Rightarrow>
                                    (s1\<lparr>metadata := (metadata s1)(abs_path \<mapsto> mtime)\<rparr>,
                                     [Added relative_path]))))))"

text \<open>The first loop over the listing. The call of \<^verbatim>\<open>check_file_changes\<close> stands before
  the \<^verbatim>\<open>try\<close>: its exception ends the loop and leaves the method.\<close>

fun reconcile ::
  "(string \<Rightarrow> error + embedding) \<Rightarrow> string list \<Rightarrow> path \<Rightarrow> string list \<Rightarrow> file_entry list
     \<Rightarrow> knowledge_base \<Rightarrow> knowledge_base \<times> event list \<times> error option" where
  "reconcile embedder cwd directory file_extensions [] s = (s, [], None)"
| "reconcile embedder cwd directory file_extensions (f # fs) s =
     (if suffix_lower f \<in> set file_extensions then
        (case check_file_changes s (joinpath directory (rel_parts f)) f of
           Inl e \<Rightarrow> (s, [], Some e)
         | Inr changed \<Rightarrow>
             (let (s1, evs1) =
                    (if changed then process_file embedder cwd directory f s else (s, []));
                  (s2, evs2, raised) = reconcile embedder cwd directory file_extensions fs s1
              in (s2, evs1 @ evs2, raised)))
      else reconcile embedder cwd directory file_extensions fs s)"

text \<open>\<^verbatim>\<open>current_files\<close>, in the order of the listing.\<close>

definition current_files :: "string list \<Rightarrow> path \<Rightarrow> string list \<Rightarrow> file_entry list \<Rightarrow> path list" where
  "current_files cwd directory file_extensions files =
     map (\<lambda>f. absolute cwd (joinpath directory (rel_parts f)))
       (filter (\<lambda>f. suffix_lower f \<in> set file_extensions) files)"

text \<open>The set comprehension \<^verbatim>\<open>current_relative_paths\<close>; the \<^verbatim>\<open>ValueError\<close> of
  \<^verbatim>\<open>relative_to\<close> is not caught here.\<close>

fun relative_paths :: "path \<Rightarrow> path list \<Rightarrow> error + string set" where
  "relative_paths directory [] = Inr {}"
| "relative_paths directory (file_path # rest) =
     (case relative_to file_path directory of
        Inl e \<Rightarrow> Inl e
      | Inr rp \<Rightarrow>
          (case relative_paths directory rest of
             Inl e \<Rightarrow> Inl e
           | Inr rps \<Rightarrow> Inr (insert (str_path rp) rps)))"

text \<open>The second loop, over \<^verbatim>\<open>enumerate(self.documents)\<close> from index \<open>i\<close> on;
  \<^verbatim>\<open>self.embeddings[i]\<close> raises when the embeddings list is too short, after the messages
  printed so far.\<close>

fun prune ::
  "string set \<Rightarrow> embedding list \<Rightarrow> nat \<Rightarrow> string list
     \<Rightarrow> error \<times> event list + string list \<times> embedding list \<times> nat \<times> event list" where
  "prune current_relative_paths embs i [] = Inr ([], [], 0, [])"
| "prune current_relative_paths embs i (doc # docs) =
     (if doc_path doc \<in> current_relative_paths then
        (if i < length embs then
           (case prune current_relative_paths embs (Suc i) docs of
              Inl raised \<Rightarrow> Inl raised
            | Inr (new_documents, new_embeddings, removed_count, evs) \<Rightarrow>
                Inr (doc # new_documents, embs ! i # new_embeddings, removed_count, evs))
         else Inl (IndexError, []))
      else
        (case prune current_relative_paths embs (Suc i) docs of
           Inl (e, evs) \<Rightarrow> Inl (e, Deleted (doc_path doc) # evs)
         | Inr (new_documents, new_embeddings, removed_count, evs) \<Rightarrow>
             Inr (new_documents, new_embeddings, Suc removed_count,
                  Deleted (doc_path doc) # evs)))"

text \<open>The rebuilt metadata dictionary; a key that is not below the directory is dropped.\<close>

definition prune_metadata :: "path \<Rightarrow> string set \<Rightarrow> (path \<rightharpoonup> real) \<Rightarrow> (path \<rightharpoonup> real)" where
  "prune_metadata directory current_relative_paths md =
     (\<lambda>abs_path.
        case md abs_path of
          None \<Rightarrow> None
        | Some meta \<Rightarrow>
            (case relative_to abs_path directory of
               Inl e \<Rightarrow> None
             | Inr rp \<Rightarrow>
                 if str_path rp \<in> current_relative_paths then Some meta else None))"

text \<open>What a method leaves behind: the instance, the storage directory, what it printed,
  and the exception that left it, if any.\<close>

record outcome =
  kb_after :: knowledge_base
  storage_after :: storage
  printed :: "event list"
  raised :: "error option"

text \<open>The whole method. \<open>files\<close> is the listing of the directory tree, \<open>cwd\<close> the
  components of the working directory.\<close>

definition add_documents_from_directory ::
  "codec \<Rightarrow> (string \<Rightarrow> error + embedding) \<Rightarrow> string list \<Rightarrow> path \<Rightarrow> string list
     \<Rightarrow> file_entry list \<Rightarrow> knowledge_base \<times> storage \<Rightarrow> outcome" where
  "add_documents_from_directory c embedder cwd directory file_extensions files st =
     (case reconcile embedder cwd directory file_extensions files (fst st) of
        (s1, evs1, Some e) \<Rightarrow>
          \<lparr>kb_after = s1, storage_after = snd st, printed = evs1, raised = Some e\<rparr>
      | (s1, evs1, None) \<Rightarrow>
          (case relative_paths directory (current_files cwd directory file_extensions files) of
             Inl e \<Rightarrow>
               \<lparr>kb_after = s1, storage_after = snd st, printed = evs1, raised = Some e\<rparr>
           | Inr current_relative_paths \<Rightarrow>
               (case prune current_relative_paths (embeddings s1) 0 (documents s1) of
                  Inl (e, evs2) \<Rightarrow>
                    \<lparr>kb_after = s1, storage_after = snd st, printed = evs1 @ evs2,
                       raised = Some e\<rparr>
                | Inr (new_documents, new_embeddings, removed_count, evs2) \<Rightarrow>
                    (let s2 = (if removed_count > 0
                               then s1\<lparr>documents := new_documents,
                                       embeddings := new_embeddings,
                                       metadata := prune_metadata directory
                                                     current_relative_paths (metadata s1)\<rparr>
                               else s1);
                         evs3 = (if removed_count > 0 then [DeletedCount removed_count] else [])
                     in case save_all c s2 (snd st) of
                          (disk2, r) \<Rightarrow>
                            \<lparr>kb_after = s2, storage_after = disk2,
                               printed = evs1 @ evs2 @ evs3, raised = r\<rparr>))))"

subsection \<open>\<^verbatim>\<open>clear_knowledge_base\<close>\<close>

definition clear_knowledge_base :: "knowledge_base \<times> storage \<Rightarrow> outcome" where
  "clear_knowledge_base st =
     \<lparr>kb_after = \<lparr>documents = [], embeddings = [], metadata = Map.empty\<rparr>,
      storage_after = \<lparr>documents_file = None, embeddings_file = None, metadata_file = None\<rparr>,
      printed = [Cleared],
      raised = None\<rparr>"


section \<open>Similarity search\<close>

lemma similarities_total:
  "\<forall>d \<in> set embs. length d = length q \<Longrightarrow> similarities q embs = Inr (map (dot_product q) embs)"
  by (induction embs) (simp_all add: dot_def)

lemma results_in_range:
  "\<forall>i \<in> set idxs. i < length docs \<and> i < length sims \<Longrightarrow>
   results docs sims idxs = Inr (map (\<lambda>i. (docs ! i, sims ! i)) idxs)"
  by (induction idxs) simp_all

lemma slice_from_last:
  "1 \<le> k \<Longrightarrow> slice_from (- k) xs = drop (length xs - nat k) xs"
  by (auto simp: slice_from_def Let_def max_def nat_diff_distrib' intro: arg_cong2[where f=drop])

lemma ascending_permutation_length:
  assumes "ascending_permutation xs idxs"
  shows "length idxs = length xs"
proof -
  from assms have d: "distinct idxs" and s: "set idxs = {0..<length xs}"
    by (simp_all add: ascending_permutation_def)
  have "length idxs = card (set idxs)"
    using d by (simp add: distinct_card)
  also have "\<dots> = length xs"
    unfolding s by simp
  finally show ?thesis .
qed

lemma ascending_permutation_set:
  "ascending_permutation xs idxs \<Longrightarrow> set idxs = {..<length xs}"
  by (simp add: ascending_permutation_def atLeast0LessThan)

lemma search_value:
  assumes "embedder query = Inr q"
    and "\<forall>d \<in> set (embeddings s). length d = length q"
    and "length (documents s) = length (embeddings s)"
    and "ascending_permutation (map (dot_product q) (embeddings s))
           (argsort (map (dot_product q) (embeddings s)))"
  shows "search argsort embedder s query top_k =
           Inr (map (\<lambda>i. (documents s ! i, dot_product q (embeddings s ! i)))
                  (rev (slice_from (- top_k) (argsort (map (dot_product q) (embeddings s))))))"
proof -
  let ?sims = "map (dot_product q) (embeddings s)"
  let ?idxs = "rev (slice_from (- top_k) (argsort ?sims))"
  have "set (argsort ?sims) = {..<length (embeddings s)}"
    using ascending_permutation_set[OF assms(4)] by simp
  then have sub: "set ?idxs \<subseteq> {..<length (embeddings s)}"
    using set_drop_subset[of _ "argsort ?sims"] by (auto simp: slice_from_def Let_def)
  then have "results (documents s) ?sims ?idxs = Inr (map (\<lambda>i. (documents s ! i, ?sims ! i)) ?idxs)"
    using assms(3) by (intro results_in_range) auto
  moreover have "map (\<lambda>i. (documents s ! i, ?sims ! i)) ?idxs
      = map (\<lambda>i. (documents s ! i, dot_product q (embeddings s ! i))) ?idxs"
    using sub by (intro map_cong) auto
  ultimately show ?thesis
    using assms(1,2) by (simp add: search_def similarities_total)
qed

lemma top_of_ascending:
  fixes xs :: "real list" and m :: nat
  assumes asc: "ascending_permutation xs perm"
  defines "idxs \<equiv> rev (drop m perm)"
  shows "length idxs = length xs - m"
    and "distinct idxs"
    and "set idxs \<subseteq> {..<length xs}"
    and "sorted_wrt (\<lambda>i j. xs ! j \<le> xs ! i) idxs"
    and "\<And>i j. j < length xs \<Longrightarrow> j \<notin> set idxs \<Longrightarrow> i \<in> set idxs \<Longrightarrow> xs ! j \<le> xs ! i"
proof -
  have up: "sorted_wrt (\<lambda>i j. xs ! i \<le> xs ! j) perm"
    using asc by (simp add: ascending_permutation_def sorted_wrt_map)
  have all: "set perm = {..<length xs}"
    using asc by (rule ascending_permutation_set)
  show "length idxs = length xs - m"
    by (simp add: idxs_def ascending_permutation_length[OF asc])
  show "distinct idxs"
    using asc by (simp add: idxs_def ascending_permutation_def distinct_drop)
  show "set idxs \<subseteq> {..<length xs}"
    using set_drop_subset[of m perm] all by (auto simp: idxs_def)
  have "sorted_wrt (\<lambda>i j. xs ! i \<le> xs ! j) (drop m perm)"
    using up by (rule sorted_wrt_drop)
  then show "sorted_wrt (\<lambda>i j. xs ! j \<le> xs ! i) idxs"
    by (simp add: idxs_def sorted_wrt_rev)
  fix i j assume j: "j < length xs" "j \<notin> set idxs" and i: "i \<in> set idxs"
  have "set perm = set (take m perm) \<union> set (drop m perm)"
    by (metis append_take_drop_id set_append)
  with j all have "j \<in> set (take m perm)" by (auto simp: idxs_def)
  moreover have "i \<in> set (drop m perm)" using i by (simp add: idxs_def)
  moreover have "sorted_wrt (\<lambda>i j. xs ! i \<le> xs ! j) (take m perm @ drop m perm)"
    using up by simp
  ultimately show "xs ! j \<le> xs ! i"
    unfolding sorted_wrt_append by fastforce
qed

text \<open>
  Claim C3, as the code has it. For a store whose two lists have the same length and whose
  vectors have the dimension of the query vector, an index sort that returns an ascending
  permutation, and a requested count of at least one, \<open>search\<close> returns the
  \<open>(content, score)\<close> pairs of \<open>min k n\<close> distinct stored documents in descending order of
  score; no document left out scores higher than one returned; a count of at least \<open>n\<close>
  returns all \<open>n\<close> documents and an empty store returns the empty list. Nothing is said
  about the order of documents with equal scores: it is the order the index sort gives them,
  reversed.
\<close>

theorem search_top_k:
  assumes "embedder query = Inr q"
    and "\<forall>d \<in> set (embeddings s). length d = length q"
    and "length (documents s) = length (embeddings s)"
    and "ascending_permutation (map (dot_product q) (embeddings s))
           (argsort (map (dot_product q) (embeddings s)))"
    and "1 \<le> top_k"
  shows "\<exists>idxs.
           search argsort embedder s query top_k =
             Inr (map (\<lambda>i. (documents s ! i, dot_product q (embeddings s ! i))) idxs)
         \<and> length idxs = min (nat top_k) (length (embeddings s))
         \<and> distinct idxs
         \<and> set idxs \<subseteq> {..<length (embeddings s)}
         \<and> (length (embeddings s) \<le> nat top_k \<longrightarrow> set idxs = {..<length (embeddings s)})
         \<and> (embeddings s = [] \<longrightarrow> search argsort embedder s query top_k = Inr [])
         \<and> sorted_wrt
               (\<lambda>i j. dot_product q (embeddings s ! j) \<le> dot_product q (embeddings s ! i)) idxs
         \<and> (\<forall>j < length (embeddings s). j \<notin> set idxs \<longrightarrow>
               (\<forall>i \<in> set idxs.
                  dot_product q (embeddings s ! j) \<le> dot_product q (embeddings s ! i)))"
proof -
  let ?n = "length (embeddings s)"
  let ?sims = "map (dot_product q) (embeddings s)"
  let ?m = "?n - nat top_k"
  let ?idxs = "rev (drop ?m (argsort ?sims))"
  note top = top_of_ascending[OF assms(4), where m = ?m]
  have ln: "length (argsort ?sims) = ?n"
    using ascending_permutation_length[OF assms(4)] by simp
  have sl: "slice_from (- top_k) (argsort ?sims) = drop ?m (argsort ?sims)"
    using assms(5) by (simp add: slice_from_last ln)
  have val: "search argsort embedder s query top_k =
      Inr (map (\<lambda>i. (documents s ! i, dot_product q (embeddings s ! i))) ?idxs)"
    using search_value[where embedder = embedder and query = query and q = q and s = s
        and top_k = top_k and argsort = argsort] assms(1-4) sl by simp
  have len: "length ?idxs = min (nat top_k) ?n"
    by (auto simp: ln min_def)
  have dist: "distinct ?idxs" by (rule top(2))
  have sub: "set ?idxs \<subseteq> {..<?n}" using top(3) by simp
  have all: "set ?idxs = {..<?n}" if "?n \<le> nat top_k"
  proof -
    have "card (set ?idxs) = ?n" using that len dist distinct_card[of ?idxs] by simp
    then show ?thesis using sub by (simp add: card_subset_eq)
  qed
  have emp: "search argsort embedder s query top_k = Inr []" if "embeddings s = []"
    using val that ln by simp
  have srt: "sorted_wrt
               (\<lambda>i j. dot_product q (embeddings s ! j) \<le> dot_product q (embeddings s ! i)) ?idxs"
  proof (rule sorted_wrt_mono_rel[OF _ top(4)])
    fix i j
    assume "i \<in> set ?idxs" "j \<in> set ?idxs"
    then have "i < ?n" "j < ?n" using sub by auto
    then have "?sims ! i = dot_product q (embeddings s ! i)"
      and "?sims ! j = dot_product q (embeddings s ! j)" by simp_all
    moreover assume "?sims ! j \<le> ?sims ! i"
    ultimately show "dot_product q (embeddings s ! j) \<le> dot_product q (embeddings s ! i)"
      by simp
  qed
  have best: "dot_product q (embeddings s ! j) \<le> dot_product q (embeddings s ! i)"
    if "j < ?n" "j \<notin> set ?idxs" "i \<in> set ?idxs" for i j
  proof -
    have "i < ?n" using that(3) sub by auto
    then show ?thesis using top(5)[of j i] that by simp
  qed
  show ?thesis
    using val len dist sub all emp srt best by blast
qed

theorem search_top_k_witness:
  "\<exists>idxs.
     search (\<lambda>sims. [2, 0, 1]) (\<lambda>prompt. Inr [1])
       \<lparr>documents = [''A'', ''B'', ''C''], embeddings = [[9 / 10], [19 / 20], [1 / 5]],
          metadata = Map.empty\<rparr> ''q'' 2
       = Inr (map (\<lambda>i. ([''A'', ''B'', ''C''] ! i,
                          dot_product [1] ([[9 / 10], [19 / 20], [1 / 5]] ! i))) idxs)
     \<and> length idxs = 2 \<and> distinct idxs"
proof -
  let ?s = "\<lparr>documents = [''A'', ''B'', ''C''], embeddings = [[9 / 10], [19 / 20], [1 / 5]],
              metadata = Map.empty\<rparr>"
  have "(\<lambda>prompt::string. Inr [1::real] :: error + embedding) ''q'' = Inr [1]"
    and "\<forall>d \<in> set (embeddings ?s). length d = length [1::real]"
    and "length (documents ?s) = length (embeddings ?s)"
    and "ascending_permutation (map (dot_product [1]) (embeddings ?s))
           ((\<lambda>sims. [2, 0, 1]) (map (dot_product [1]) (embeddings ?s)))"
    and "(1::int) \<le> 2"
    unfolding ascending_permutation_def
    by (simp_all add: dot_product_def upt_rec numeral_eq_Suc insert_commute)
  from search_top_k[of "\<lambda>prompt. Inr [1]" "''q''" "[1]" ?s "\<lambda>sims. [2, 0, 1]" 2, OF this]
  show ?thesis by auto
qed

text \<open>
  Two stored documents with the same score, and an index sort that returns them as
  \<open>[0, 1]\<close>, an ascending permutation: the document stored second is returned first, so
  ties are not broken by store order.
\<close>

theorem search_ties_counterexample:
  "ascending_permutation [1, 1] [0, 1]
   \<and> search (\<lambda>sims. [0, 1]) (\<lambda>prompt. Inr [1])
       \<lparr>documents = [''first'', ''second''], embeddings = [[1], [1]], metadata = Map.empty\<rparr>
       ''q'' 2
     = Inr [(''second'', 1), (''first'', 1)]"
  unfolding ascending_permutation_def
  by (simp add: search_def dot_def dot_product_def slice_from_def upt_rec numeral_eq_Suc
      insert_commute)

text \<open>
  Claim C10. With \<open>top_k = 0\<close> the slice \<^verbatim>\<open>[-0:]\<close> keeps the whole index array: under the
  same conditions on the store and the index sort, \<open>search\<close> returns all \<open>n\<close> stored
  documents in descending order of score, and the result is empty exactly when the store
  is empty.
\<close>

theorem search_top_k_zero:
  assumes "embedder query = Inr q"
    and "\<forall>d \<in> set (embeddings s). length d = length q"
    and "length (documents s) = length (embeddings s)"
    and "ascending_permutation (map (dot_product q) (embeddings s))
           (argsort (map (dot_product q) (embeddings s)))"
  shows "\<exists>idxs.
           search argsort embedder s query 0 =
             Inr (map (\<lambda>i. (documents s ! i, dot_product q (embeddings s ! i))) idxs)
         \<and> length idxs = length (embeddings s)
         \<and> distinct idxs
         \<and> set idxs = {..<length (embeddings s)}
         \<and> sorted_wrt
               (\<lambda>i j. dot_product q (embeddings s ! j) \<le> dot_product q (embeddings s ! i)) idxs
         \<and> (search argsort embedder s query 0 = Inr [] \<longleftrightarrow> embeddings s = [])"
proof -
  let ?n = "length (embeddings s)"
  let ?sims = "map (dot_product q) (embeddings s)"
  let ?idxs = "rev (drop 0 (argsort ?sims))"
  note top = top_of_ascending[OF assms(4), where m = 0]
  have ln: "length (argsort ?sims) = ?n"
    using ascending_permutation_length[OF assms(4)] by simp
  have val: "search argsort embedder s query 0 =
      Inr (map (\<lambda>i. (documents s ! i, dot_product q (embeddings s ! i))) ?idxs)"
    using search_value[where embedder = embedder and query = query and q = q and s = s
        and top_k = 0 and argsort = argsort] assms(1-4) by (simp add: slice_from_def)
  have len: "length ?idxs = ?n" by (simp add: ln)
  have dist: "distinct ?idxs" by (rule top(2))
  have all: "set ?idxs = {..<?n}"
    using ascending_permutation_set[OF assms(4)] by simp
  have srt: "sorted_wrt
               (\<lambda>i j. dot_product q (embeddings s ! j) \<le> dot_product q (embeddings s ! i)) ?idxs"
  proof (rule sorted_wrt_mono_rel[OF _ top(4)])
    fix i j
    assume "i \<in> set ?idxs" "j \<in> set ?idxs"
    then have "i < ?n" "j < ?n" using all by auto
    then have "?sims ! i = dot_product q (embeddings s ! i)"
      and "?sims ! j = dot_product q (embeddings s ! j)" by simp_all
    moreover assume "?sims ! j \<le> ?sims ! i"
    ultimately show "dot_product q (embeddings s ! j) \<le> dot_product q (embeddings s ! i)"
      by simp
  qed
  have emp: "search argsort embedder s query 0 = Inr [] \<longleftrightarrow> embeddings s = []"
  proof -
    have "search argsort embedder s query 0 = Inr [] \<longleftrightarrow> ?idxs = []"
      using val by simp
    also have "\<dots> \<longleftrightarrow> embeddings s = []"
      using len by (metis length_0_conv)
    finally show ?thesis .
  qed
  show ?thesis
    using val len dist all srt emp by blast
qed

theorem search_top_k_zero_witness:
  "\<exists>idxs.
     search (\<lambda>sims. [2, 0, 1]) (\<lambda>prompt. Inr [1])
       \<lparr>documents = [''A'', ''B'', ''C''], embeddings = [[9 / 10], [19 / 20], [1 / 5]],
          metadata = Map.empty\<rparr> ''q'' 0
       = Inr (map (\<lambda>i. ([''A'', ''B'', ''C''] ! i,
                          dot_product [1] ([[9 / 10], [19 / 20], [1 / 5]] ! i))) idxs)
     \<and> length idxs = 3"
proof -
  let ?s = "\<lparr>documents = [''A'', ''B'', ''C''], embeddings = [[9 / 10], [19 / 20], [1 / 5]],
              metadata = Map.empty\<rparr>"
  have "(\<lambda>prompt::string. Inr [1::real] :: error + embedding) ''q'' = Inr [1]"
    and "\<forall>d \<in> set (embeddings ?s). length d = length [1::real]"
    and "length (documents ?s) = length (embeddings ?s)"
    and "ascending_permutation (map (dot_product [1]) (embeddings ?s))
           ((\<lambda>sims. [2, 0, 1]) (map (dot_product [1]) (embeddings ?s)))"
    unfolding ascending_permutation_def
    by (simp_all add: dot_product_def upt_rec numeral_eq_Suc insert_commute)
  from search_top_k_zero[of "\<lambda>prompt. Inr [1]" "''q''" "[1]" ?s "\<lambda>sims. [2, 0, 1]", OF this]
  show ?thesis by auto
qed


section \<open>Saving twice\<close>

lemma save_all_again:
  "save_all c s (fst (save_all c s disk)) = save_all c s disk"
  by (simp add: save_all_def save_data_def save_metadata_def)

section \<open>Directory synchronisation\<close>

subsection \<open>Paths below the directory\<close>

lemma relative_to_joinpath: "relative_to (joinpath d r) d = Inr (Path False r)"
  by (simp add: relative_to_def joinpath_def)

lemma absolute_joinpath: "is_absolute d \<Longrightarrow> absolute cwd (joinpath d r) = joinpath d r"
  by (simp add: absolute_def joinpath_def)

lemma joinpath_inject: "joinpath d r = joinpath d r' \<longleftrightarrow> r = r'"
  by (simp add: joinpath_def)

lemma relative_to_absolute_joinpath:
  "relative_to (absolute cwd (joinpath d r)) d =
     (if is_absolute d then Inr (Path False r) else Inl NotRelative)"
  by (simp add: relative_to_def joinpath_def absolute_def)

subsection \<open>The search for the document of a file\<close>

lemma find_doc_Some:
  "find_doc docs r = Some i \<Longrightarrow>
     i < length docs \<and> doc_path (docs ! i) = r \<and> (\<forall>j<i. doc_path (docs ! j) \<noteq> r)"
proof (induction docs arbitrary: i)
  case Nil
  then show ?case by simp
next
  case (Cons d docs)
  show ?case
  proof (cases "doc_path d = r")
    case True
    with Cons.prems show ?thesis by simp
  next
    case False
    with Cons.prems obtain k where k: "find_doc docs r = Some k" "i = Suc k"
      by auto
    from Cons.IH[OF k(1)] False k(2) show ?thesis
      by (auto simp: less_Suc_eq_0_disj)
  qed
qed

subsection \<open>One file\<close>

lemma read_needs_stat:
  "read_file_content f = Inr content \<Longrightarrow> \<exists>mtime. st_mtime f = Inr mtime"
  by (auto simp: read_file_content_def extracted_def st_mtime_def Let_def
      split: if_splits file_status.splits)

lemma check_file_changes_unchanged:
  "check_file_changes s p f = Inr False \<longleftrightarrow>
     (\<exists>mtime. st_mtime f = Inr mtime \<and> metadata s p = Some mtime)"
  by (auto simp: check_file_changes_def split: sum.splits option.splits)

lemma process_file_lengths:
  assumes "length (documents s) = length (embeddings s)"
  shows "length (documents (fst (process_file E cwd d f s)))
       = length (embeddings (fst (process_file E cwd d f s)))"
  using assms
  by (auto simp: process_file_def Let_def add_document_def relative_to_joinpath
      split: sum.splits option.splits)

lemma process_file_metadata_other:
  assumes "p \<noteq> absolute cwd (joinpath d (rel_parts f))"
  shows "metadata (fst (process_file E cwd d f s)) p = metadata s p"
  using assms
  by (auto simp: process_file_def Let_def add_document_def relative_to_joinpath
      split: sum.splits option.splits)

subsection \<open>The first loop\<close>

lemma reconcile_lengths:
  "length (documents s) = length (embeddings s) \<Longrightarrow>
     length (documents (fst (reconcile E cwd d exts files s)))
   = length (embeddings (fst (reconcile E cwd d exts files s)))"
proof (induction files arbitrary: s)
  case Nil
  then show ?case by simp
next
  case (Cons f files)
  show ?case
  proof (cases "suffix_lower f \<in> set exts")
    case False
    with Cons show ?thesis by simp
  next
    case True
    show ?thesis
    proof (cases "check_file_changes s (joinpath d (rel_parts f)) f")
      case (Inl e)
      with True Cons.prems show ?thesis by simp
    next
      case (Inr changed)
      let ?s1 = "fst (if changed then process_file E cwd d f s else (s, []))"
      have "length (documents ?s1) = length (embeddings ?s1)"
        using process_file_lengths[OF Cons.prems, of E cwd d f] Cons.prems by simp
      from Cons.IH[OF this] True Inr show ?thesis
        by (simp add: split_beta)
    qed
  qed
qed

lemma reconcile_unchanged:
  "\<forall>f \<in> set files. suffix_lower f \<in> set exts \<longrightarrow>
       check_file_changes s (joinpath d (rel_parts f)) f = Inr False \<Longrightarrow>
     reconcile E cwd d exts files s = (s, [], None)"
  by (induction files) simp_all

lemma reconcile_skip_unchanged:
  "\<forall>f \<in> set pre. suffix_lower f \<in> set exts \<longrightarrow>
       check_file_changes s (joinpath d (rel_parts f)) f = Inr False \<Longrightarrow>
     reconcile E cwd d exts (pre @ rest) s = reconcile E cwd d exts rest s"
  by (induction pre) simp_all

subsection \<open>The second loop\<close>

lemma prune_total:
  "i + length docs \<le> length embs \<Longrightarrow>
     prune rels embs i docs =
       Inr (filter (\<lambda>doc. doc_path doc \<in> rels) docs,
            map snd (filter (\<lambda>(doc, e). doc_path doc \<in> rels) (zip docs (drop i embs))),
            length (filter (\<lambda>doc. doc_path doc \<notin> rels) docs),
            map (\<lambda>doc. Deleted (doc_path doc)) (filter (\<lambda>doc. doc_path doc \<notin> rels) docs))"
proof (induction docs arbitrary: i)
  case Nil
  then show ?case by simp
next
  case (Cons doc docs)
  then have i: "i < length embs" and rest: "Suc i + length docs \<le> length embs" by simp_all
  have dr: "drop i embs = embs ! i # drop (Suc i) embs"
    using i by (simp add: Cons_nth_drop_Suc)
  show ?case
    using Cons.IH[OF rest] i by (simp add: dr)
qed

lemma map_fst_filter_zip:
  "length xs = length ys \<Longrightarrow>
     map fst (filter (\<lambda>(x, y). P x) (zip xs ys)) = filter P xs"
  by (induction xs ys rule: list_induct2) simp_all

lemma filter_zip_left_all:
  "\<forall>x \<in> set xs. P x \<Longrightarrow> filter (\<lambda>(x, y). P x) (zip xs ys) = zip xs ys"
  by (rule filter_True) (auto dest: set_zip_leftD)

lemma relative_paths_current_files:
  "relative_paths d (current_files cwd d exts files) =
     (if is_absolute d \<or> filter (\<lambda>f. suffix_lower f \<in> set exts) files = []
      then Inr ((\<lambda>f. str_path (Path False (rel_parts f))) `
                  {f \<in> set files. suffix_lower f \<in> set exts})
      else Inl NotRelative)"
proof (induction files)
  case Nil
  then show ?case by (simp add: current_files_def)
next
  case (Cons f files)
  then show ?case
    by (auto simp: current_files_def relative_to_absolute_joinpath split: sum.splits)
qed

subsection \<open>The whole method\<close>

lemma sync_stat_raised:
  assumes "reconcile E cwd d exts files s = (s1, evs1, Some e)"
  shows "add_documents_from_directory c E cwd d exts files (s, disk) =
           \<lparr>kb_after = s1, storage_after = disk, printed = evs1, raised = Some e\<rparr>"
  using assms by (simp add: add_documents_from_directory_def)

lemma sync_not_relative:
  assumes "\<not> is_absolute d" and "filter (\<lambda>f. suffix_lower f \<in> set exts) files \<noteq> []"
    and "reconcile E cwd d exts files s = (s1, evs1, None)"
  shows "add_documents_from_directory c E cwd d exts files (s, disk) =
           \<lparr>kb_after = s1, storage_after = disk, printed = evs1, raised = Some NotRelative\<rparr>"
  using assms
  by (simp add: add_documents_from_directory_def relative_paths_current_files)

lemma sync_value:
  assumes ok: "is_absolute d \<or> filter (\<lambda>f. suffix_lower f \<in> set exts) files = []"
    and al: "length (documents s) = length (embeddings s)"
    and rc: "reconcile E cwd d exts files s = (s1, evs1, None)"
    and pr: "present = (\<lambda>f. str_path (Path False (rel_parts f))) `
                         {f \<in> set files. suffix_lower f \<in> set exts}"
    and gn: "gone = filter (\<lambda>doc. doc_path doc \<notin> present) (documents s1)"
    and s2: "s2 = (if gone = [] then s1
                  else s1\<lparr>documents := filter (\<lambda>doc. doc_path doc \<in> present) (documents s1),
                          embeddings := map snd (filter (\<lambda>(doc, e). doc_path doc \<in> present)
                                                  (zip (documents s1) (embeddings s1))),
                          metadata := prune_metadata d present (metadata s1)\<rparr>)"
  shows "add_documents_from_directory c E cwd d exts files (s, disk) =
           \<lparr>kb_after = s2, storage_after = fst (save_all c s2 disk),
              printed = evs1 @ map (\<lambda>doc. Deleted (doc_path doc)) gone
                  @ (if gone = [] then [] else [DeletedCount (length gone)]),
              raised = snd (save_all c s2 disk)\<rparr>"
proof -
  have al1: "length (documents s1) = length (embeddings s1)"
    using reconcile_lengths[OF al, of E cwd d exts files] rc by simp
  have rp: "relative_paths d (current_files cwd d exts files) = Inr present"
    using ok pr by (simp add: relative_paths_current_files)
  have pn: "prune present (embeddings s1) 0 (documents s1) =
       Inr (filter (\<lambda>doc. doc_path doc \<in> present) (documents s1),
            map snd (filter (\<lambda>(doc, e). doc_path doc \<in> present)
                       (zip (documents s1) (embeddings s1))),
            length gone, map (\<lambda>doc. Deleted (doc_path doc)) gone)"
    using prune_total[of 0 "documents s1" "embeddings s1" present] al1 gn by simp
  show ?thesis
    by (simp add: add_documents_from_directory_def rc rp pn s2 Let_def split_beta)
qed


lemma save_all_raised:
  "snd (save_all c s disk) = None \<or> snd (save_all c s disk) = Some EncodeFailure"
  by (simp add: save_all_def save_data_def save_metadata_def)

lemma save_all_encodable:
  "\<forall>doc \<in> set (documents s). utf8 doc \<Longrightarrow> \<forall>p \<in> dom (metadata s). utf8 (str_path p) \<Longrightarrow>
     snd (save_all c s disk) = None"
  by (simp add: save_all_def save_data_def save_metadata_def)

lemma kept_lengths:
  assumes "length docs = length embs"
  shows "length (filter P docs) = length (map snd (filter (\<lambda>(doc, e). P doc) (zip docs embs)))"
  using map_fst_filter_zip[OF assms, of P] by (metis length_map)

text \<open>
  Claim C1. The two lists of the store have the same length after every public operation:
  \<open>add_document\<close> and \<open>add_documents_from_directory\<close> keep the lengths equal when they were
  equal before, whether the synchronisation returns or raises, and \<open>clear_knowledge_base\<close>
  leaves two empty lists.
\<close>

theorem alignment_invariant:
  assumes "length (documents s) = length (embeddings s)"
  shows "(\<forall>s'. add_document E content s = Inr s' \<longrightarrow>
             length (documents s') = length (embeddings s'))
       \<and> length (documents (kb_after (add_documents_from_directory c E cwd d exts files (s, disk))))
           = length (embeddings (kb_after (add_documents_from_directory c E cwd d exts files (s, disk))))
       \<and> length (documents (kb_after (clear_knowledge_base (s, disk))))
           = length (embeddings (kb_after (clear_knowledge_base (s, disk))))"
proof (intro conjI allI impI)
  fix s'
  assume "add_document E content s = Inr s'"
  then show "length (documents s') = length (embeddings s')"
    using assms by (auto simp: add_document_def split: sum.splits)
next
  obtain s1 evs1 r where rc: "reconcile E cwd d exts files s = (s1, evs1, r)"
    by (cases "reconcile E cwd d exts files s")
  have al1: "length (documents s1) = length (embeddings s1)"
    using reconcile_lengths[OF assms, of E cwd d exts files] rc by simp
  let ?out = "add_documents_from_directory c E cwd d exts files (s, disk)"
  show "length (documents (kb_after ?out)) = length (embeddings (kb_after ?out))"
  proof (cases r)
    case (Some e)
    then show ?thesis using sync_stat_raised[of E cwd d exts files s s1 evs1 e c disk] rc al1
      by simp
  next
    case None
    show ?thesis
    proof (cases "is_absolute d \<or> filter (\<lambda>f. suffix_lower f \<in> set exts) files = []")
      case False
      then show ?thesis
        using sync_not_relative[of d exts files E cwd s s1 evs1 c disk] rc None al1 by simp
    next
      case True
      from sync_value[OF True assms rc[unfolded None] refl refl refl, of c disk]
      show ?thesis using al1 kept_lengths[OF al1] by simp
    qed
  qed
next
  show "length (documents (kb_after (clear_knowledge_base (s, disk))))
           = length (embeddings (kb_after (clear_knowledge_base (s, disk))))"
    by (simp add: clear_knowledge_base_def)
qed

subsection \<open>Running the synchronisation twice\<close>

lemma process_file_success_metadata:
  assumes ab: "is_absolute d"
    and al: "length (documents s) = length (embeddings s)"
    and rd: "read_file_content f = Inr content"
    and st: "st_mtime f = Inr mtime"
    and em: "\<forall>p. \<exists>v. E p = Inr v"
  shows "metadata (fst (process_file E cwd d f s)) (joinpath d (rel_parts f)) = Some mtime"
proof -
  let ?r = "str_path (Path False (rel_parts f))"
  obtain v where v: "E content = Inr v" using em by blast
  obtain w where w: "E (make_document ?r content) = Inr w" using em by blast
  show ?thesis
  proof (cases "find_doc (documents s) ?r")
    case None
    then show ?thesis
      using rd w ab st
      by (simp add: process_file_def Let_def relative_to_joinpath add_document_def
          absolute_joinpath)
  next
    case (Some i)
    then have "i < length (embeddings s)" using find_doc_Some[OF Some] al by simp
    then show ?thesis
      using rd v ab Some st
      by (simp add: process_file_def Let_def relative_to_joinpath absolute_joinpath)
  qed
qed

lemma reconcile_metadata_other:
  "p \<notin> (\<lambda>f. absolute cwd (joinpath d (rel_parts f))) ` {f \<in> set files. suffix_lower f \<in> set exts}
   \<Longrightarrow> metadata (fst (reconcile E cwd d exts files s)) p = metadata s p"
proof (induction files arbitrary: s)
  case Nil
  then show ?case by simp
next
  case (Cons f files)
  then have rest: "p \<notin> (\<lambda>f. absolute cwd (joinpath d (rel_parts f))) `
      {f \<in> set files. suffix_lower f \<in> set exts}" by auto
  show ?case
  proof (cases "suffix_lower f \<in> set exts")
    case False
    then show ?thesis using Cons.IH[OF rest] by simp
  next
    case True
    then have "p \<noteq> absolute cwd (joinpath d (rel_parts f))" using Cons.prems by auto
    then have one: "metadata (fst (process_file E cwd d f s)) p = metadata s p"
      by (rule process_file_metadata_other)
    show ?thesis
    proof (cases "check_file_changes s (joinpath d (rel_parts f)) f")
      case (Inl e)
      then show ?thesis using True by simp
    next
      case (Inr changed)
      then show ?thesis
        using True one Cons.IH[OF rest, of "fst (process_file E cwd d f s)"] Cons.IH[OF rest, of s]
        by (simp add: split_beta)
    qed
  qed
qed

lemma reconcile_success:
  assumes ab: "is_absolute d"
    and em: "\<forall>p. \<exists>v. E p = Inr v"
  shows "length (documents s) = length (embeddings s) \<Longrightarrow>
    \<forall>f \<in> set files. suffix_lower f \<in> set exts \<longrightarrow> (\<exists>content. read_file_content f = Inr content) \<Longrightarrow>
    distinct (map rel_parts (filter (\<lambda>f. suffix_lower f \<in> set exts) files)) \<Longrightarrow>
    snd (snd (reconcile E cwd d exts files s)) = None
    \<and> (\<forall>g \<in> set files. suffix_lower g \<in> set exts \<longrightarrow>
          check_file_changes (fst (reconcile E cwd d exts files s)) (joinpath d (rel_parts g)) g
            = Inr False)"
proof (induction files arbitrary: s)
  case Nil
  then show ?case by simp
next
  case (Cons f files)
  show ?case
  proof (cases "suffix_lower f \<in> set exts")
    case False
    with Cons show ?thesis by auto
  next
    case True
    obtain content where c: "read_file_content f = Inr content" using Cons.prems(2) True by auto
    then obtain mtime where st: "st_mtime f = Inr mtime" using read_needs_stat by blast
    have "\<exists>changed. check_file_changes s (joinpath d (rel_parts f)) f = Inr changed"
      using st by (cases "metadata s (joinpath d (rel_parts f))") (auto simp: check_file_changes_def)
    then obtain changed where ch: "check_file_changes s (joinpath d (rel_parts f)) f = Inr changed"
      by blast
    let ?s1 = "fst (if changed then process_file E cwd d f s else (s, []))"
    have al1: "length (documents ?s1) = length (embeddings ?s1)"
      using process_file_lengths[OF Cons.prems(1), of E cwd d f] Cons.prems(1) by simp
    have rd: "\<forall>f \<in> set files. suffix_lower f \<in> set exts \<longrightarrow>
        (\<exists>content. read_file_content f = Inr content)"
      using Cons.prems(2) by simp
    have dist: "distinct (map rel_parts (filter (\<lambda>f. suffix_lower f \<in> set exts) files))"
      and fresh: "rel_parts f \<notin> rel_parts ` {f \<in> set files. suffix_lower f \<in> set exts}"
      using Cons.prems(3) True by auto
    note IH = Cons.IH[OF al1 rd dist]
    have unfold: "reconcile E cwd d exts (f # files) s =
        (fst (reconcile E cwd d exts files ?s1),
         snd (if changed then process_file E cwd d f s else (s, []))
           @ fst (snd (reconcile E cwd d exts files ?s1)),
         snd (snd (reconcile E cwd d exts files ?s1)))"
      using True ch by (simp add: split_beta)
    have m1: "metadata ?s1 (joinpath d (rel_parts f)) = Some mtime"
    proof (cases changed)
      case True
      then show ?thesis
        using process_file_success_metadata[OF ab Cons.prems(1) c st em, of cwd] by simp
    next
      case False
      then show ?thesis
        using ch st check_file_changes_unchanged[of s "joinpath d (rel_parts f)" f] by simp
    qed
    have "joinpath d (rel_parts f) \<notin> (\<lambda>f. absolute cwd (joinpath d (rel_parts f))) `
          {f \<in> set files. suffix_lower f \<in> set exts}"
      using fresh ab by (auto simp: absolute_joinpath joinpath_inject)
    then have "metadata (fst (reconcile E cwd d exts files ?s1)) (joinpath d (rel_parts f))
          = metadata ?s1 (joinpath d (rel_parts f))"
      by (rule reconcile_metadata_other)
    with m1 st have f_ok: "check_file_changes (fst (reconcile E cwd d exts files ?s1))
        (joinpath d (rel_parts f)) f = Inr False"
      by (simp add: check_file_changes_unchanged)
    show ?thesis
      unfolding unfold using IH f_ok by auto
  qed
qed

lemma prune_metadata_keeps:
  assumes "str_path (Path False r) \<in> present"
  shows "prune_metadata d present md (joinpath d r) = md (joinpath d r)"
  using assms by (simp add: prune_metadata_def relative_to_joinpath split: option.splits)

lemma sync_nothing_to_do:
  assumes ok: "is_absolute d \<or> filter (\<lambda>f. suffix_lower f \<in> set exts) files = []"
    and al: "length (documents s) = length (embeddings s)"
    and un: "\<forall>f \<in> set files. suffix_lower f \<in> set exts \<longrightarrow>
               check_file_changes s (joinpath d (rel_parts f)) f = Inr False"
    and here: "\<forall>doc \<in> set (documents s). doc_path doc \<in>
                 (\<lambda>f. str_path (Path False (rel_parts f))) `
                    {f \<in> set files. suffix_lower f \<in> set exts}"
  shows "add_documents_from_directory c E cwd d exts files (s, disk) =
           \<lparr>kb_after = s, storage_after = fst (save_all c s disk), printed = [],
              raised = snd (save_all c s disk)\<rparr>"
proof -
  have rc: "reconcile E cwd d exts files s = (s, [], None)"
    using un by (rule reconcile_unchanged)
  have gone: "[] = filter (\<lambda>doc. doc_path doc \<notin> (\<lambda>f. str_path (Path False (rel_parts f))) `
                    {f \<in> set files. suffix_lower f \<in> set exts}) (documents s)"
    using here by (simp add: filter_empty_conv)
  from sync_value[OF ok al rc refl gone, of s c disk] show ?thesis by simp
qed


text \<open>
  Claim C2, as the code has it. For an absolute directory, a store whose lists have the same
  length, a listing without repeated paths in which every file with a recognised suffix can
  be read, and an embedding service that answers every prompt: a second run over the same
  listing leaves the store and the storage as the first run left them and prints nothing,
  every file being classified unchanged; it ends as the first run ended, which is normally
  whenever the store of the first run can be written as UTF-8.
\<close>

theorem resync_idempotent:
  assumes ab: "is_absolute d"
    and al: "length (documents s) = length (embeddings s)"
    and rd: "\<forall>f \<in> set files. suffix_lower f \<in> set exts \<longrightarrow>
               (\<exists>content. read_file_content f = Inr content)"
    and em: "\<forall>p. \<exists>v. E p = Inr v"
    and dist: "distinct (map rel_parts (filter (\<lambda>f. suffix_lower f \<in> set exts) files))"
  shows "\<exists>s1 disk1 evs1 r1.
           add_documents_from_directory c E cwd d exts files (s, disk) =
             \<lparr>kb_after = s1, storage_after = disk1, printed = evs1, raised = r1\<rparr>
         \<and> add_documents_from_directory c E cwd d exts files (s1, disk1) =
             \<lparr>kb_after = s1, storage_after = disk1, printed = [], raised = r1\<rparr>
         \<and> (\<forall>f \<in> set files. suffix_lower f \<in> set exts \<longrightarrow>
               check_file_changes s1 (joinpath d (rel_parts f)) f = Inr False)
         \<and> (r1 = None \<or> r1 = Some EncodeFailure)
         \<and> ((\<forall>doc \<in> set (documents s1). utf8 doc)
              \<and> (\<forall>p \<in> dom (metadata s1). utf8 (str_path p)) \<longrightarrow> r1 = None)"
proof -
  obtain sr evr rr where rc0: "reconcile E cwd d exts files s = (sr, evr, rr)"
    by (cases "reconcile E cwd d exts files s")
  note good = reconcile_success[OF ab em al rd dist, of cwd]
  have rc: "reconcile E cwd d exts files s = (sr, evr, None)"
    using good rc0 by simp
  define present where "present = (\<lambda>f. str_path (Path False (rel_parts f))) `
                         {f \<in> set files. suffix_lower f \<in> set exts}"
  define gone where "gone = filter (\<lambda>doc. doc_path doc \<notin> present) (documents sr)"
  define s1 where "s1 = (if gone = [] then sr
                  else sr\<lparr>documents := filter (\<lambda>doc. doc_path doc \<in> present) (documents sr),
                          embeddings := map snd (filter (\<lambda>(doc, e). doc_path doc \<in> present)
                                                  (zip (documents sr) (embeddings sr))),
                          metadata := prune_metadata d present (metadata sr)\<rparr>)"
  define disk1 where "disk1 = fst (save_all c s1 disk)"
  define r1 where "r1 = snd (save_all c s1 disk)"
  have ok: "is_absolute d \<or> filter (\<lambda>f. suffix_lower f \<in> set exts) files = []"
    using ab by simp
  have first: "add_documents_from_directory c E cwd d exts files (s, disk) =
      \<lparr>kb_after = s1, storage_after = disk1,
         printed = evr @ map (\<lambda>doc. Deleted (doc_path doc)) gone
                  @ (if gone = [] then [] else [DeletedCount (length gone)]),
         raised = r1\<rparr>"
    unfolding disk1_def r1_def by (rule sync_value[OF ok al rc present_def gone_def s1_def])
  have alr: "length (documents sr) = length (embeddings sr)"
    using reconcile_lengths[OF al, of E cwd d exts files] rc by simp
  have al1: "length (documents s1) = length (embeddings s1)"
    using alr kept_lengths[OF alr] by (simp add: s1_def)
  have un: "\<forall>f \<in> set files. suffix_lower f \<in> set exts \<longrightarrow>
               check_file_changes s1 (joinpath d (rel_parts f)) f = Inr False"
  proof (intro ballI impI)
    fix f assume f: "f \<in> set files" "suffix_lower f \<in> set exts"
    then have "check_file_changes sr (joinpath d (rel_parts f)) f = Inr False"
      using good rc by simp
    then obtain mtime where m: "st_mtime f = Inr mtime"
      "metadata sr (joinpath d (rel_parts f)) = Some mtime"
      by (auto simp: check_file_changes_unchanged)
    have "str_path (Path False (rel_parts f)) \<in> present"
      using f by (auto simp: present_def)
    then have "prune_metadata d present (metadata sr) (joinpath d (rel_parts f))
        = metadata sr (joinpath d (rel_parts f))"
      by (rule prune_metadata_keeps)
    with m have "metadata s1 (joinpath d (rel_parts f)) = Some mtime"
      by (simp add: s1_def)
    with m(1) show "check_file_changes s1 (joinpath d (rel_parts f)) f = Inr False"
      by (simp add: check_file_changes_unchanged)
  qed
  have here: "\<forall>doc \<in> set (documents s1). doc_path doc \<in>
                 (\<lambda>f. str_path (Path False (rel_parts f))) `
                    {f \<in> set files. suffix_lower f \<in> set exts}"
  proof (cases "gone = []")
    case True
    then have "\<forall>doc \<in> set (documents sr). doc_path doc \<in> present"
      by (simp add: gone_def filter_empty_conv)
    with True show ?thesis by (simp add: s1_def present_def)
  next
    case False
    then show ?thesis by (simp add: s1_def present_def)
  qed
  have again: "save_all c s1 disk1 = save_all c s1 disk"
    unfolding disk1_def by (rule save_all_again)
  from sync_nothing_to_do[OF ok al1 un here, of c E cwd disk1]
  have second: "add_documents_from_directory c E cwd d exts files (s1, disk1) =
      \<lparr>kb_after = s1, storage_after = disk1, printed = [], raised = r1\<rparr>"
    by (simp only: again disk1_def[symmetric] r1_def[symmetric])
  have ends: "r1 = None \<or> r1 = Some EncodeFailure"
    unfolding r1_def by (rule save_all_raised)
  have normal: "r1 = None"
    if "(\<forall>doc \<in> set (documents s1). utf8 doc) \<and> (\<forall>p \<in> dom (metadata s1). utf8 (str_path p))"
    unfolding r1_def using that by (intro save_all_encodable) simp_all
  from first second un ends normal show ?thesis by blast
qed

subsection \<open>Removed and modified files\<close>

text \<open>
  Claim C5. When a run returns normally, the store holds exactly the documents of the store
  left by the first loop whose tag is the relative path of a file now present, each with the
  embedding of its index, in their former order: a single filter over the two lists. When
  no present file is new or modified, that is the filter of the store the run started from.
\<close>

theorem resync_removes_missing:
  assumes al: "length (documents s) = length (embeddings s)"
    and run: "add_documents_from_directory c E cwd d exts files (s, disk) = out"
    and normal: "raised out = None"
  shows "documents (kb_after out) =
           filter (\<lambda>doc. doc_path doc \<in> (\<lambda>f. str_path (Path False (rel_parts f))) `
                                          {f \<in> set files. suffix_lower f \<in> set exts})
             (documents (fst (reconcile E cwd d exts files s)))
       \<and> zip (documents (kb_after out)) (embeddings (kb_after out)) =
           filter (\<lambda>(doc, e). doc_path doc \<in> (\<lambda>f. str_path (Path False (rel_parts f))) `
                                          {f \<in> set files. suffix_lower f \<in> set exts})
             (zip (documents (fst (reconcile E cwd d exts files s)))
                  (embeddings (fst (reconcile E cwd d exts files s))))
       \<and> length (documents (kb_after out)) = length (embeddings (kb_after out))
       \<and> ((\<forall>f \<in> set files. suffix_lower f \<in> set exts \<longrightarrow>
               check_file_changes s (joinpath d (rel_parts f)) f = Inr False) \<longrightarrow>
            documents (kb_after out) =
              filter (\<lambda>doc. doc_path doc \<in> (\<lambda>f. str_path (Path False (rel_parts f))) `
                                          {f \<in> set files. suffix_lower f \<in> set exts})
                (documents s)
          \<and> zip (documents (kb_after out)) (embeddings (kb_after out)) =
              filter (\<lambda>(doc, e). doc_path doc \<in> (\<lambda>f. str_path (Path False (rel_parts f))) `
                                          {f \<in> set files. suffix_lower f \<in> set exts})
                (zip (documents s) (embeddings s)))"
proof -
  obtain sr evr rr where rc0: "reconcile E cwd d exts files s = (sr, evr, rr)"
    by (cases "reconcile E cwd d exts files s")
  have "rr = None"
  proof (cases rr)
    case (Some e)
    with sync_stat_raised[of E cwd d exts files s sr evr e c disk] rc0 run normal
    show ?thesis by auto
  qed simp
  then have rc: "reconcile E cwd d exts files s = (sr, evr, None)" using rc0 by simp
  define present where "present = (\<lambda>f. str_path (Path False (rel_parts f))) `
                         {f \<in> set files. suffix_lower f \<in> set exts}"
  define gone where "gone = filter (\<lambda>doc. doc_path doc \<notin> present) (documents sr)"
  define s2 where "s2 = (if gone = [] then sr
                  else sr\<lparr>documents := filter (\<lambda>doc. doc_path doc \<in> present) (documents sr),
                          embeddings := map snd (filter (\<lambda>(doc, e). doc_path doc \<in> present)
                                                  (zip (documents sr) (embeddings sr))),
                          metadata := prune_metadata d present (metadata sr)\<rparr>)"
  have ok: "is_absolute d \<or> filter (\<lambda>f. suffix_lower f \<in> set exts) files = []"
  proof (rule ccontr)
    assume "\<not> ?thesis"
    then have "\<not> is_absolute d" "filter (\<lambda>f. suffix_lower f \<in> set exts) files \<noteq> []" by simp_all
    from sync_not_relative[OF this rc, of c disk] run normal show False by auto
  qed
  have s': "kb_after out = s2"
    using sync_value[OF ok al rc present_def gone_def s2_def, of c disk] run by auto
  have alr: "length (documents sr) = length (embeddings sr)"
    using reconcile_lengths[OF al, of E cwd d exts files] rc by simp
  let ?kept = "filter (\<lambda>(doc, e). doc_path doc \<in> present) (zip (documents sr) (embeddings sr))"
  have fstk: "map fst ?kept = filter (\<lambda>doc. doc_path doc \<in> present) (documents sr)"
    by (rule map_fst_filter_zip[OF alr])
  have docs: "documents (kb_after out) = filter (\<lambda>doc. doc_path doc \<in> present) (documents sr)"
  proof (cases "gone = []")
    case True
    then have "\<forall>doc \<in> set (documents sr). doc_path doc \<in> present"
      by (simp add: gone_def filter_empty_conv)
    then show ?thesis using True by (simp add: s' s2_def)
  next
    case False
    then show ?thesis by (simp add: s' s2_def)
  qed
  have pairs: "zip (documents (kb_after out)) (embeddings (kb_after out)) = ?kept"
  proof (cases "gone = []")
    case True
    then have "\<forall>doc \<in> set (documents sr). doc_path doc \<in> present"
      by (simp add: gone_def filter_empty_conv)
    then have "?kept = zip (documents sr) (embeddings sr)"
      by (rule filter_zip_left_all)
    then show ?thesis using True by (simp add: s' s2_def)
  next
    case False
    have "zip (map fst ?kept) (map snd ?kept) = ?kept" by (rule zip_map_fst_snd)
    then show ?thesis using False fstk by (simp add: s' s2_def)
  qed
  have len: "length (documents (kb_after out)) = length (embeddings (kb_after out))"
    using alr kept_lengths[OF alr] by (simp add: s' s2_def)
  have same: "sr = s"
    if "\<forall>f \<in> set files. suffix_lower f \<in> set exts \<longrightarrow>
               check_file_changes s (joinpath d (rel_parts f)) f = Inr False"
    using reconcile_unchanged[OF that, of E cwd] rc by simp
  show ?thesis
    using docs pairs len same rc by (auto simp: present_def)
qed

text \<open>
  Claim C6. A file of the listing that is modified, can be read and embedded, and whose
  relative path is the tag of a stored document: the run finds the first document with that
  tag, at index \<open>i\<close>, and replaces the content and the embedding at \<open>i\<close>; both lists keep
  their length. The other files of the listing are unchanged, every stored document belongs
  to a present file, and the new document carries the tag it was found by. The run ends
  normally whenever the new store can be written as UTF-8.
\<close>

theorem resync_updates_in_place:
  assumes ab: "is_absolute d"
    and al: "length (documents s) = length (embeddings s)"
    and fs: "files = pre @ f # post"
    and mt: "suffix_lower f \<in> set exts"
    and others: "\<forall>g \<in> set pre \<union> set post. suffix_lower g \<in> set exts \<longrightarrow>
                   rel_parts g \<noteq> rel_parts f
                 \<and> check_file_changes s (joinpath d (rel_parts g)) g = Inr False"
    and ch: "check_file_changes s (joinpath d (rel_parts f)) f = Inr True"
    and st: "st_mtime f = Inr mtime"
    and rd: "read_file_content f = Inr content"
    and em: "E content = Inr v"
    and r: "r = str_path (Path False (rel_parts f))"
    and fd: "find_doc (documents s) r = Some i"
    and tagged: "doc_path (make_document r content) = r"
    and here: "\<forall>doc \<in> set (documents s). doc_path doc \<in>
                 (\<lambda>f. str_path (Path False (rel_parts f))) `
                    {f \<in> set files. suffix_lower f \<in> set exts}"
  shows "\<exists>out.
           add_documents_from_directory c E cwd d exts files (s, disk) = out
         \<and> printed out = [Updated r]
         \<and> documents (kb_after out) = (documents s)[i := make_document r content]
         \<and> embeddings (kb_after out) = (embeddings s)[i := v]
         \<and> metadata (kb_after out) = (metadata s)(joinpath d (rel_parts f) \<mapsto> mtime)
         \<and> length (documents (kb_after out)) = length (documents s)
         \<and> length (embeddings (kb_after out)) = length (embeddings s)
         \<and> i < length (documents s)
         \<and> doc_path (documents s ! i) = r
         \<and> (\<forall>j<i. doc_path (documents s ! j) \<noteq> r)
         \<and> (raised out = None \<or> raised out = Some EncodeFailure)
         \<and> ((\<forall>doc \<in> set (documents (kb_after out)). utf8 doc)
              \<and> (\<forall>p \<in> dom (metadata (kb_after out)). utf8 (str_path p)) \<longrightarrow> raised out = None)"
proof -
  define s' where "s' = s\<lparr>documents := (documents s)[i := make_document r content],
                          embeddings := (embeddings s)[i := v],
                          metadata := (metadata s)(joinpath d (rel_parts f) \<mapsto> mtime)\<rparr>"
  note found = find_doc_Some[OF fd]
  have i: "i < length (embeddings s)" using found al by simp
  have one: "process_file E cwd d f s = (s', [Updated r])"
    using rd em fd i ab st
    by (simp add: process_file_def Let_def relative_to_joinpath absolute_joinpath r[symmetric]
        s'_def)
  have post: "reconcile E cwd d exts post s' = (s', [], None)"
  proof (rule reconcile_unchanged, intro ballI impI)
    fix g assume g: "g \<in> set post" "suffix_lower g \<in> set exts"
    then have "rel_parts g \<noteq> rel_parts f"
      and "check_file_changes s (joinpath d (rel_parts g)) g = Inr False"
      using others by auto
    then obtain m where m: "st_mtime g = Inr m" "metadata s (joinpath d (rel_parts g)) = Some m"
      and ne: "rel_parts g \<noteq> rel_parts f"
      by (auto simp: check_file_changes_unchanged)
    from ne m(2) have "metadata s' (joinpath d (rel_parts g)) = Some m"
      by (simp add: s'_def joinpath_inject)
    with m(1) show "check_file_changes s' (joinpath d (rel_parts g)) g = Inr False"
      by (simp add: check_file_changes_unchanged)
  qed
  have "reconcile E cwd d exts (pre @ f # post) s = reconcile E cwd d exts (f # post) s"
    using others by (intro reconcile_skip_unchanged) auto
  then have rc: "reconcile E cwd d exts files s = (s', [Updated r], None)"
    using one post mt ch by (simp add: fs)
  have ok: "is_absolute d \<or> filter (\<lambda>f. suffix_lower f \<in> set exts) files = []"
    using ab by simp
  have "r \<in> (\<lambda>f. str_path (Path False (rel_parts f))) `
                    {f \<in> set files. suffix_lower f \<in> set exts}"
    using mt by (auto simp: fs r)
  then have "\<forall>doc \<in> set (documents s'). doc_path doc \<in>
                 (\<lambda>f. str_path (Path False (rel_parts f))) `
                    {f \<in> set files. suffix_lower f \<in> set exts}"
    using here tagged set_update_subset_insert[of "documents s" i "make_document r content"]
    by (auto simp: s'_def)
  then have gone: "[] = filter (\<lambda>doc. doc_path doc \<notin> (\<lambda>f. str_path (Path False (rel_parts f))) `
                    {f \<in> set files. suffix_lower f \<in> set exts}) (documents s')"
    by (simp add: filter_empty_conv)
  from sync_value[OF ok al rc refl gone, of s' c disk]
  have out: "add_documents_from_directory c E cwd d exts files (s, disk) =
      \<lparr>kb_after = s', storage_after = fst (save_all c s' disk), printed = [Updated r],
         raised = snd (save_all c s' disk)\<rparr>"
    by simp
  have ends: "snd (save_all c s' disk) = None \<or> snd (save_all c s' disk) = Some EncodeFailure"
    by (rule save_all_raised)
  have normal: "snd (save_all c s' disk) = None"
    if "(\<forall>doc \<in> set (documents s'). utf8 doc) \<and> (\<forall>p \<in> dom (metadata s'). utf8 (str_path p))"
    using that by (intro save_all_encodable) simp_all
  show ?thesis
    unfolding out using found ends normal by (simp add: s'_def)
qed


section \<open>Persistence\<close>

text \<open>The equations that evaluate a run on a concrete listing.\<close>

lemmas sync_eval = add_documents_from_directory_def process_file_def Let_def
  check_file_changes_def read_file_content_def st_mtime_def extracted_def
  joinpath_def absolute_def relative_to_def
  str_path_def make_document_def doc_path_def tag_def sep_def add_document_def
  current_files_def default_extensions_def prune_metadata_def
  save_all_def save_data_def save_metadata_def
  in_range_def three_bytes_def four_bytes_def




text \<open>
  A documents file that exists and does not parse: constructing the instance raises, it does
  not start from the empty state.
\<close>

theorem load_unparsable_counterexample:
  "init_knowledge_base
     \<lparr>documents_file = Some Unparsable, embeddings_file = None, metadata_file = None\<rparr>
   = Inl ParseFailure
   \<and> init_knowledge_base
     \<lparr>documents_file = Some Unparsable, embeddings_file = None, metadata_file = None\<rparr>
   \<noteq> Inr \<lparr>documents = [], embeddings = [], metadata = Map.empty\<rparr>"
  by (simp add: init_knowledge_base_def load_metadata_def load_documents_def
      load_embeddings_def)

text \<open>
  Claim C7, as the code has it. A file that is absent gives the empty value of its loader,
  and a storage directory with none of the three files gives the empty initial state. A file
  that exists and does not parse makes its loader, and with it the constructor, raise the
  parse error.
\<close>

theorem load_absent_or_unparsable:
  "(documents_file disk = None \<and> embeddings_file disk = None \<and> metadata_file disk = None
      \<longrightarrow> init_knowledge_base disk
            = Inr \<lparr>documents = [], embeddings = [], metadata = Map.empty\<rparr>)
   \<and> (documents_file disk = Some Unparsable \<or> embeddings_file disk = Some Unparsable
        \<or> metadata_file disk = Some Unparsable
      \<longrightarrow> init_knowledge_base disk = Inl ParseFailure)
   \<and> (documents_file disk = None \<longrightarrow> load_documents disk = Inr [])
   \<and> (embeddings_file disk = None \<longrightarrow> load_embeddings disk = Inr [])
   \<and> (metadata_file disk = None \<longrightarrow> load_metadata disk = Inr Map.empty)
   \<and> (documents_file disk = Some Unparsable \<longrightarrow> load_documents disk = Inl ParseFailure)
   \<and> (embeddings_file disk = Some Unparsable \<longrightarrow> load_embeddings disk = Inl ParseFailure)
   \<and> (metadata_file disk = Some Unparsable \<longrightarrow> load_metadata disk = Inl ParseFailure)"
  by (auto simp: init_knowledge_base_def load_metadata_def load_documents_def
      load_embeddings_def split: option.splits artifact.splits)

theorem load_absent_or_unparsable_witness:
  "init_knowledge_base \<lparr>documents_file = None, embeddings_file = None, metadata_file = None\<rparr>
     = Inr \<lparr>documents = [], embeddings = [], metadata = Map.empty\<rparr>
   \<and> init_knowledge_base
       \<lparr>documents_file = Some (Parsed [''x'']), embeddings_file = Some Unparsable,
          metadata_file = None\<rparr>
     = Inl ParseFailure"
  using load_absent_or_unparsable
          [of "\<lparr>documents_file = None, embeddings_file = None, metadata_file = None\<rparr>"]
        load_absent_or_unparsable
          [of "\<lparr>documents_file = Some (Parsed [''x'']), embeddings_file = Some Unparsable,
                 metadata_file = None\<rparr>"]
  by simp





section \<open>Runs on concrete listings\<close>

text \<open>The theorems above at concrete stores and listings below the directory \<^verbatim>\<open>/d\<close>,
  with \<^verbatim>\<open>json\<close> and \<^verbatim>\<open>pickle\<close> reading back what they wrote.\<close>

theorem alignment_invariant_witness:
  "(\<exists>s'. add_document (\<lambda>prompt. Inr [1]) ''x''
            \<lparr>documents = [''y''], embeddings = [[2]], metadata = Map.empty\<rparr> = Inr s'
         \<and> length (documents s') = length (embeddings s') \<and> length (documents s') = 2)
   \<and> length (documents (kb_after
         (add_documents_from_directory \<lparr>dumped_documents = Parsed, dumped_embeddings = Parsed, dumped_metadata = Parsed\<rparr> (\<lambda>prompt. Inr [1]) [''home''] (Path True [''d''])
            default_extensions [\<lparr>rel_parts = [''a.txt''], suffix_lower = ''.txt'', status = Existing 1 (Inr ''alpha'')\<rparr>]
            (\<lparr>documents = [''y''], embeddings = [[2]], metadata = Map.empty\<rparr>, \<lparr>documents_file = None, embeddings_file = None, metadata_file = None\<rparr>))))
     = length (embeddings (kb_after
         (add_documents_from_directory \<lparr>dumped_documents = Parsed, dumped_embeddings = Parsed, dumped_metadata = Parsed\<rparr> (\<lambda>prompt. Inr [1]) [''home''] (Path True [''d''])
            default_extensions [\<lparr>rel_parts = [''a.txt''], suffix_lower = ''.txt'', status = Existing 1 (Inr ''alpha'')\<rparr>]
            (\<lparr>documents = [''y''], embeddings = [[2]], metadata = Map.empty\<rparr>, \<lparr>documents_file = None, embeddings_file = None, metadata_file = None\<rparr>))))"
proof -
  let ?s = "\<lparr>documents = [''y''], embeddings = [[2]], metadata = Map.empty\<rparr>"
  have al: "length (documents ?s) = length (embeddings ?s)" by simp
  have "\<exists>s'. add_document (\<lambda>prompt. Inr [1]) ''x'' ?s = Inr s' \<and> length (documents s') = 2"
    by (simp add: add_document_def)
  then show ?thesis
    using alignment_invariant[OF al, of "\<lambda>prompt. Inr [1]" "''x''" "\<lparr>dumped_documents = Parsed, dumped_embeddings = Parsed, dumped_metadata = Parsed\<rparr>" "[''home'']"
        "Path True [''d'']" default_extensions "[\<lparr>rel_parts = [''a.txt''], suffix_lower = ''.txt'', status = Existing 1 (Inr ''alpha'')\<rparr>]" "\<lparr>documents_file = None, embeddings_file = None, metadata_file = None\<rparr>"]
    by blast
qed

theorem resync_idempotent_witness:
  "\<exists>s1 disk1 evs1 r1.
     add_documents_from_directory \<lparr>dumped_documents = Parsed, dumped_embeddings = Parsed, dumped_metadata = Parsed\<rparr> (\<lambda>prompt. Inr [1]) [''home''] (Path True [''d''])
       default_extensions [\<lparr>rel_parts = [''a.txt''], suffix_lower = ''.txt'', status = Existing 1 (Inr ''alpha'')\<rparr>, \<lparr>rel_parts = [''b.md''], suffix_lower = ''.md'', status = Existing 1 (Inr ''beta'')\<rparr>] (\<lparr>documents = [], embeddings = [], metadata = Map.empty\<rparr>, \<lparr>documents_file = None, embeddings_file = None, metadata_file = None\<rparr>)
       = \<lparr>kb_after = s1, storage_after = disk1, printed = evs1, raised = r1\<rparr>
   \<and> add_documents_from_directory \<lparr>dumped_documents = Parsed, dumped_embeddings = Parsed, dumped_metadata = Parsed\<rparr> (\<lambda>prompt. Inr [1]) [''home''] (Path True [''d''])
       default_extensions [\<lparr>rel_parts = [''a.txt''], suffix_lower = ''.txt'', status = Existing 1 (Inr ''alpha'')\<rparr>, \<lparr>rel_parts = [''b.md''], suffix_lower = ''.md'', status = Existing 1 (Inr ''beta'')\<rparr>] (s1, disk1)
       = \<lparr>kb_after = s1, storage_after = disk1, printed = [], raised = r1\<rparr>"
proof -
  let ?s = "\<lparr>documents = [], embeddings = [], metadata = Map.empty\<rparr>"
  let ?files = "[\<lparr>rel_parts = [''a.txt''], suffix_lower = ''.txt'', status = Existing 1 (Inr ''alpha'')\<rparr>, \<lparr>rel_parts = [''b.md''], suffix_lower = ''.md'', status = Existing 1 (Inr ''beta'')\<rparr>]"
  have ab: "is_absolute (Path True [''d''])" by simp
  have al: "length (documents ?s) = length (embeddings ?s)" by simp
  have rd: "\<forall>f \<in> set ?files. suffix_lower f \<in> set default_extensions \<longrightarrow>
      (\<exists>content. read_file_content f = Inr content)"
    by (simp add: read_file_content_def extracted_def default_extensions_def)
  have em: "\<forall>p. \<exists>v. (\<lambda>prompt::string. Inr [1::real] :: error + embedding) p = Inr v" by simp
  have dist: "distinct (map rel_parts
      (filter (\<lambda>f. suffix_lower f \<in> set default_extensions) ?files))"
    by (simp add: default_extensions_def)
  from resync_idempotent[OF ab al rd em dist, of "\<lparr>dumped_documents = Parsed, dumped_embeddings = Parsed, dumped_metadata = Parsed\<rparr>" "[''home'']" "\<lparr>documents_file = None, embeddings_file = None, metadata_file = None\<rparr>"]
  show ?thesis by blast
qed

text \<open>
  A file that cannot be read gets no metadata entry: after the first run it is still
  classified as changed, and the second run reads it again.
\<close>

theorem resync_retries_failed_file_counterexample:
  "add_documents_from_directory \<lparr>dumped_documents = Parsed, dumped_embeddings = Parsed, dumped_metadata = Parsed\<rparr> (\<lambda>prompt. Inr [1]) [''home''] (Path True [''d''])
       default_extensions [\<lparr>rel_parts = [''a.pdf''], suffix_lower = ''.pdf'', status = Existing 1 (Inl ReadFailure)\<rparr>] (\<lparr>documents = [], embeddings = [], metadata = Map.empty\<rparr>, \<lparr>documents_file = None, embeddings_file = None, metadata_file = None\<rparr>)
     = \<lparr>kb_after = \<lparr>documents = [], embeddings = [], metadata = Map.empty\<rparr>,
          storage_after = \<lparr>documents_file = Some (Parsed []), embeddings_file = Some (Parsed []),
                             metadata_file = Some (Parsed Map.empty)\<rparr>,
          printed = [Failed (Path True [''d'', ''a.pdf'']) ReadFailure],
          raised = None\<rparr>
   \<and> check_file_changes \<lparr>documents = [], embeddings = [], metadata = Map.empty\<rparr> (joinpath (Path True [''d'']) [''a.pdf'']) \<lparr>rel_parts = [''a.pdf''], suffix_lower = ''.pdf'', status = Existing 1 (Inl ReadFailure)\<rparr> = Inr True
   \<and> add_documents_from_directory \<lparr>dumped_documents = Parsed, dumped_embeddings = Parsed, dumped_metadata = Parsed\<rparr> (\<lambda>prompt. Inr [1]) [''home''] (Path True [''d''])
       default_extensions [\<lparr>rel_parts = [''a.pdf''], suffix_lower = ''.pdf'', status = Existing 1 (Inl ReadFailure)\<rparr>]
       (\<lparr>documents = [], embeddings = [], metadata = Map.empty\<rparr>, \<lparr>documents_file = Some (Parsed []), embeddings_file = Some (Parsed []),
               metadata_file = Some (Parsed Map.empty)\<rparr>)
     = \<lparr>kb_after = \<lparr>documents = [], embeddings = [], metadata = Map.empty\<rparr>,
          storage_after = \<lparr>documents_file = Some (Parsed []), embeddings_file = Some (Parsed []),
                             metadata_file = Some (Parsed Map.empty)\<rparr>,
          printed = [Failed (Path True [''d'', ''a.pdf'']) ReadFailure],
          raised = None\<rparr>"
  by (simp add: sync_eval)

text \<open>
  Claim C4 at a concrete run. The store tracks \<^verbatim>\<open>a.txt\<close>; the file is modified and the
  embedding service fails. The branch for an existing document assigns the new document
  before it asks for the embedding, so the run leaves the new content at index 0 beside the
  embedding of the old content, and saves both; \<open>add_document\<close> asks for the embedding
  first and changes nothing when it fails.
\<close>

theorem update_replaces_document_before_embedding:
  "\<exists>out.
     add_documents_from_directory \<lparr>dumped_documents = Parsed, dumped_embeddings = Parsed, dumped_metadata = Parsed\<rparr> (\<lambda>prompt. Inl EmbeddingFailure) [''home'']
       (Path True [''d'']) default_extensions [\<lparr>rel_parts = [''a.txt''], suffix_lower = ''.txt'', status = Existing 2 (Inr ''new'')\<rparr>]
       (\<lparr>documents = [make_document ''a.txt'' ''old''],
          embeddings = [[1]],
          metadata = [Path True [''d'', ''a.txt''] \<mapsto> 1]\<rparr>, \<lparr>documents_file = None, embeddings_file = None, metadata_file = None\<rparr>) = out
   \<and> printed out = [Failed (Path True [''d'', ''a.txt'']) EmbeddingFailure]
   \<and> raised out = None
   \<and> documents (kb_after out) = [make_document ''a.txt'' ''new'']
   \<and> embeddings (kb_after out) = [[1]]
   \<and> metadata (kb_after out) (Path True [''d'', ''a.txt'']) = Some 1
   \<and> documents_file (storage_after out) = Some (Parsed [make_document ''a.txt'' ''new''])
   \<and> embeddings_file (storage_after out) = Some (Parsed [[1]])"
  by (simp add: sync_eval)

text \<open>
  Claim C8 at a concrete run. The listing holds a dangling symbolic link \<^verbatim>\<open>broken.txt\<close> and,
  after it, a readable file \<^verbatim>\<open>b.md\<close>. \<^verbatim>\<open>check_file_changes\<close> is called before the
  \<^verbatim>\<open>try\<close>, so the exception of \<^verbatim>\<open>stat()\<close> leaves the method: nothing is printed, the
  readable file is not added and nothing is saved.
\<close>

theorem stat_error_aborts_batch:
  "add_documents_from_directory \<lparr>dumped_documents = Parsed, dumped_embeddings = Parsed, dumped_metadata = Parsed\<rparr> (\<lambda>prompt. Inr [1]) [''home''] (Path True [''d''])
       default_extensions [\<lparr>rel_parts = [''broken.txt''], suffix_lower = ''.txt'', status = Missing StatFailure\<rparr>, \<lparr>rel_parts = [''b.md''], suffix_lower = ''.md'', status = Existing 1 (Inr ''beta'')\<rparr>] (\<lparr>documents = [], embeddings = [], metadata = Map.empty\<rparr>, \<lparr>documents_file = None, embeddings_file = None, metadata_file = None\<rparr>)
     = \<lparr>kb_after = \<lparr>documents = [], embeddings = [], metadata = Map.empty\<rparr>, storage_after = \<lparr>documents_file = None, embeddings_file = None, metadata_file = None\<rparr>, printed = [], raised = Some StatFailure\<rparr>"
  by (simp add: sync_eval)


theorem resync_removes_missing_witness:
  "\<exists>out.
     add_documents_from_directory \<lparr>dumped_documents = Parsed, dumped_embeddings = Parsed, dumped_metadata = Parsed\<rparr> (\<lambda>prompt. Inr [1]) [''home''] (Path True [''d''])
       default_extensions [\<lparr>rel_parts = [''a.txt''], suffix_lower = ''.txt'', status = Existing 1 (Inr ''alpha'')\<rparr>] (\<lparr>documents = [make_document ''a.txt'' ''alpha'', make_document ''b.md'' ''beta''],
          embeddings = [[1], [2]],
          metadata = [Path True [''d'', ''a.txt''] \<mapsto> 1, Path True [''d'', ''b.md''] \<mapsto> 1]\<rparr>, \<lparr>documents_file = None, embeddings_file = None, metadata_file = None\<rparr>) = out
   \<and> raised out = None
   \<and> documents (kb_after out) = [make_document ''a.txt'' ''alpha'']
   \<and> embeddings (kb_after out) = [[1]]
   \<and> printed out = [Deleted ''b.md'', DeletedCount 1]
   \<and> zip (documents (kb_after out)) (embeddings (kb_after out)) =
       filter (\<lambda>(doc, e). doc_path doc \<in> {''a.txt''})
         (zip [make_document ''a.txt'' ''alpha'', make_document ''b.md'' ''beta''] [[1], [2]])"
proof -
  let ?s = "\<lparr>documents = [make_document ''a.txt'' ''alpha'', make_document ''b.md'' ''beta''],
          embeddings = [[1], [2]],
          metadata = [Path True [''d'', ''a.txt''] \<mapsto> 1, Path True [''d'', ''b.md''] \<mapsto> 1]\<rparr>"
  let ?files = "[\<lparr>rel_parts = [''a.txt''], suffix_lower = ''.txt'', status = Existing 1 (Inr ''alpha'')\<rparr>]"
  let ?out = "add_documents_from_directory \<lparr>dumped_documents = Parsed, dumped_embeddings = Parsed, dumped_metadata = Parsed\<rparr> (\<lambda>prompt. Inr [1]) [''home'']
       (Path True [''d'']) default_extensions ?files (?s, \<lparr>documents_file = None, embeddings_file = None, metadata_file = None\<rparr>)"
  have al: "length (documents ?s) = length (embeddings ?s)" by simp
  have vals: "documents (kb_after ?out) = [make_document ''a.txt'' ''alpha'']"
    "embeddings (kb_after ?out) = [[1]]"
    "printed ?out = [Deleted ''b.md'', DeletedCount 1]"
    by (simp_all add: sync_eval)
  have normal: "raised ?out = None"
    by (simp add: sync_eval dom_def split: if_splits)
  have un: "\<forall>f \<in> set ?files. suffix_lower f \<in> set default_extensions \<longrightarrow>
               check_file_changes ?s (joinpath (Path True [''d'']) (rel_parts f)) f = Inr False"
    by (simp add: check_file_changes_def st_mtime_def joinpath_def)
  have e1: "{f \<in> set ?files. suffix_lower f \<in> set default_extensions}
        = set (filter (\<lambda>f. suffix_lower f \<in> set default_extensions) ?files)"
    by (rule set_filter[symmetric])
  have e2: "filter (\<lambda>f. suffix_lower f \<in> set default_extensions) ?files = ?files"
    by (simp add: default_extensions_def)
  have pres: "(\<lambda>f. str_path (Path False (rel_parts f))) `
      {f \<in> set ?files. suffix_lower f \<in> set default_extensions} = {''a.txt''}"
    unfolding e1 e2 by (simp add: str_path_def)
  from resync_removes_missing[OF al refl normal] un
  have "zip (documents (kb_after ?out)) (embeddings (kb_after ?out)) =
       filter (\<lambda>(doc, e). doc_path doc \<in> {''a.txt''}) (zip (documents ?s) (embeddings ?s))"
    unfolding pres by blast
  with vals normal show ?thesis by simp
qed

theorem resync_updates_in_place_witness:
  "\<exists>out.
     add_documents_from_directory \<lparr>dumped_documents = Parsed, dumped_embeddings = Parsed, dumped_metadata = Parsed\<rparr> (\<lambda>prompt. Inr [3]) [''home''] (Path True [''d''])
       default_extensions [\<lparr>rel_parts = [''b.md''], suffix_lower = ''.md'', status = Existing 1 (Inr ''beta'')\<rparr>, \<lparr>rel_parts = [''a.txt''], suffix_lower = ''.txt'', status = Existing 2 (Inr ''new'')\<rparr>] (\<lparr>documents = [make_document ''a.txt'' ''alpha'', make_document ''b.md'' ''beta''],
          embeddings = [[1], [2]],
          metadata = [Path True [''d'', ''a.txt''] \<mapsto> 1, Path True [''d'', ''b.md''] \<mapsto> 1]\<rparr>, \<lparr>documents_file = None, embeddings_file = None, metadata_file = None\<rparr>) = out
   \<and> printed out = [Updated ''a.txt'']
   \<and> documents (kb_after out) = [make_document ''a.txt'' ''new'', make_document ''b.md'' ''beta'']
   \<and> embeddings (kb_after out) = [[3], [2]]"
proof -
  let ?s = "\<lparr>documents = [make_document ''a.txt'' ''alpha'', make_document ''b.md'' ''beta''],
          embeddings = [[1], [2]],
          metadata = [Path True [''d'', ''a.txt''] \<mapsto> 1, Path True [''d'', ''b.md''] \<mapsto> 1]\<rparr>"
  let ?fb = "\<lparr>rel_parts = [''b.md''], suffix_lower = ''.md'', status = Existing 1 (Inr ''beta'')\<rparr>"
  let ?fa = "\<lparr>rel_parts = [''a.txt''], suffix_lower = ''.txt'', status = Existing 2 (Inr ''new'')\<rparr>"
  let ?d = "Path True [''d'']"
  have ab: "is_absolute ?d" by simp
  have al: "length (documents ?s) = length (embeddings ?s)" by simp
  have fs: "[?fb, ?fa] = [?fb] @ ?fa # []" by simp
  have mt: "suffix_lower ?fa \<in> set default_extensions" by (simp add: default_extensions_def)
  have others: "\<forall>g \<in> set [?fb] \<union> set []. suffix_lower g \<in> set default_extensions \<longrightarrow>
                   rel_parts g \<noteq> rel_parts ?fa
                 \<and> check_file_changes ?s (joinpath ?d (rel_parts g)) g = Inr False"
    by (simp add: check_file_changes_def st_mtime_def joinpath_def)
  have ch: "check_file_changes ?s (joinpath ?d (rel_parts ?fa)) ?fa = Inr True"
    by (simp add: check_file_changes_def st_mtime_def joinpath_def)
  have st: "st_mtime ?fa = Inr 2" by (simp add: st_mtime_def)
  have rd: "read_file_content ?fa = Inr ''new''"
    by (simp add: read_file_content_def extracted_def)
  have em: "(\<lambda>prompt::string. Inr [3::real] :: error + embedding) ''new'' = Inr [3]" by simp
  have r: "''a.txt'' = str_path (Path False (rel_parts ?fa))" by (simp add: str_path_def)
  have fd: "find_doc (documents ?s) ''a.txt'' = Some 0"
    by (simp add: doc_path_def make_document_def tag_def sep_def)
  have tagged: "doc_path (make_document ''a.txt'' ''new'') = ''a.txt''"
    by (simp add: doc_path_def make_document_def tag_def sep_def)
  have here: "\<forall>doc \<in> set (documents ?s). doc_path doc \<in>
                 (\<lambda>f. str_path (Path False (rel_parts f))) `
                    {f \<in> set [?fb, ?fa]. suffix_lower f \<in> set default_extensions}"
  proof -
    have e1: "{f \<in> set [?fb, ?fa]. suffix_lower f \<in> set default_extensions}
        = set (filter (\<lambda>f. suffix_lower f \<in> set default_extensions) [?fb, ?fa])"
      by (rule set_filter[symmetric])
    have e2: "filter (\<lambda>f. suffix_lower f \<in> set default_extensions) [?fb, ?fa] = [?fb, ?fa]"
      by (simp add: default_extensions_def)
    have "(\<lambda>f. str_path (Path False (rel_parts f))) `
        {f \<in> set [?fb, ?fa]. suffix_lower f \<in> set default_extensions} = {''b.md'', ''a.txt''}"
      unfolding e1 e2 by (simp add: str_path_def)
    then show ?thesis
      by (simp add: doc_path_def make_document_def tag_def sep_def)
  qed
  from resync_updates_in_place[OF ab al fs mt others ch st rd em r fd tagged here,
      of "\<lparr>dumped_documents = Parsed, dumped_embeddings = Parsed, dumped_metadata = Parsed\<rparr>" "[''home'']" "\<lparr>documents_file = None, embeddings_file = None, metadata_file = None\<rparr>"]
  show ?thesis by auto
qed


end
